theory Spec2Isabelle
  imports Main "HOL-Library.Sublist"
begin

section \<open>Strings\<close>

text \<open>
  A Python \<open>str\<close> is modelled as the list of bytes of its UTF-8 encoding. The notifier
  only concatenates, joins and slices lists of strings, so concatenation, prefixes and
  equality of the encodings are those of the strings.
\<close>

definition nl :: string where
  "nl = [CHR 0x0A]"

definition digit_char :: "nat \<Rightarrow> char" where
  "digit_char d = ''0123456789'' ! d"

fun str_nat :: "nat \<Rightarrow> string" where
  "str_nat n = (if n < 10 then [digit_char n] else str_nat (n div 10) @ [digit_char (n mod 10)])"

declare str_nat.simps [simp del]

text \<open>\<open>str(i)\<close> for a Python int, as the f-strings of \<open>format_message\<close> render it.\<close>

definition str_int :: "int \<Rightarrow> string" where
  "str_int i = (if i < 0 then CHR ''-'' # str_nat (nat (- i)) else str_nat (nat i))"

text \<open>\<open>sep.join(xs)\<close>.\<close>

fun join :: "string \<Rightarrow> string list \<Rightarrow> string" where
  "join sep [] = []"
| "join sep [x] = x"
| "join sep (x # y # ys) = x @ sep @ join sep (y # ys)"

text \<open>\<open>s.rstrip(c)\<close> for a single character.\<close>

definition rstrip :: "char \<Rightarrow> string \<Rightarrow> string" where
  "rstrip c s = rev (dropWhile (\<lambda>x. x = c) (rev s))"

text \<open>The non-ASCII literals of the source, in UTF-8.\<close>

definition r18_emoji :: string where
  "r18_emoji = [CHR 0xF0, CHR 0x9F, CHR 0x94, CHR 0x9E]"

definition ugoira_emoji :: string where
  "ugoira_emoji = [CHR 0xF0, CHR 0x9F, CHR 0x8E, CHR 0x9E, CHR 0xEF, CHR 0xB8, CHR 0x8F]"

definition score_emoji :: string where
  "score_emoji = [CHR 0xF0, CHR 0x9F, CHR 0x8E, CHR 0xAF]"

definition score_label :: string where
  "score_label = [CHR 0xE5, CHR 0x8C, CHR 0xB9, CHR 0xE9, CHR 0x85, CHR 0x8D, CHR 0xE5, CHR 0xBA, CHR 0xA6]"

definition long_emoji :: string where
  "long_emoji = [CHR 0xF0, CHR 0x9F, CHR 0x93, CHR 0x9A]"

definition title_emoji :: string where
  "title_emoji = [CHR 0xF0, CHR 0x9F, CHR 0x8E, CHR 0xA8]"

definition user_emoji :: string where
  "user_emoji = [CHR 0xF0, CHR 0x9F, CHR 0x91, CHR 0xA4]"

definition bookmark_emoji :: string where
  "bookmark_emoji = [CHR 0xE2, CHR 0x9D, CHR 0xA4, CHR 0xEF, CHR 0xB8, CHR 0x8F]"

definition tags_emoji :: string where
  "tags_emoji = [CHR 0xF0, CHR 0x9F, CHR 0x8F, CHR 0xB7, CHR 0xEF, CHR 0xB8, CHR 0x8F]"

definition link_emoji :: string where
  "link_emoji = [CHR 0xF0, CHR 0x9F, CHR 0x94, CHR 0x97]"

definition reply_word :: string where
  "reply_word = [CHR 0xE5, CHR 0x9B, CHR 0x9E, CHR 0xE5, CHR 0xA4, CHR 0x8D]"

definition like_word :: string where
  "like_word = [CHR 0xE5, CHR 0x96, CHR 0x9C, CHR 0xE6, CHR 0xAC, CHR 0xA2]"

definition dislike_word :: string where
  "dislike_word = [CHR 0xE4, CHR 0xB8, CHR 0x8D, CHR 0xE5, CHR 0x96, CHR 0x9C, CHR 0xE6, CHR 0xAC, CHR 0xA2]"

definition bullet :: string where
  "bullet = [CHR 0xE2, CHR 0x80, CHR 0xA2]"

section \<open>Data model\<close>

text \<open>
  The \<open>Illust\<close> record supplied by the content source. The type \<open>'f\<close> is Python's float
  (the match score); its arithmetic stays outside the model. \<open>illust_type\<close> is \<open>None\<close> when
  the object has no \<open>type\<close> attribute, which \<open>getattr(illust, 'type', 'illust')\<close> allows.
\<close>

record 'f illust =
  illust_id :: int
  title :: string
  user_name :: string
  bookmark_count :: int
  tags :: "string list"
  page_count :: int
  illust_type :: "string option"
  is_r18 :: bool
  match_score :: "'f option"
  image_urls :: "string list"

text \<open>
  The three dictionaries that \<open>send\<close> and \<open>send_text\<close> put into a message chain:
  \<open>{"type": "Plain", "text": t}\<close>, \<open>{"type": "Image", "base64": b}\<close> and
  \<open>{"type": "Image", "url": u}\<close>.
\<close>

datatype segment = Plain string | ImageBase64 string | ImageUrl string

text \<open>The constructor arguments that the methods read.\<close>

record config =
  http_url :: string
  unified_msg_origin :: string
  api_key :: "string option"
  max_pages :: int
  image_quality :: int
  max_image_size :: int

definition init_config :: "string \<Rightarrow> string \<Rightarrow> string option \<Rightarrow> int \<Rightarrow> int \<Rightarrow> int \<Rightarrow> config" where
  "init_config url origin key mp q sz =
     \<lparr>http_url = rstrip (CHR ''/'') url, unified_msg_origin = origin, api_key = key,
      max_pages = mp, image_quality = q, max_image_size = sz\<rparr>"

text \<open>
  Exceptions, all of them instances of Python's \<open>Exception\<close>: \<open>ClientError\<close> stands for
  \<open>aiohttp.ClientError\<close> and its subclasses, \<open>TimeoutError\<close> for \<open>asyncio.TimeoutError\<close>.
  Cancellation and interpreter exit, which are not instances of \<open>Exception\<close>, are not
  modelled.
\<close>

datatype exn = ClientError | TimeoutError | AttributeError | TypeError | OtherException string

text \<open>
  A value parsed by \<open>resp.json()\<close>. \<open>JNull\<close> is Python's \<open>None\<close>; \<open>JObj\<close> holds the items
  of the parsed dict. Numbers are integers here.
\<close>

datatype json = JNull | JBool bool | JInt int | JStr string | JArr "json list" | JObj "(string \<times> json) list"

text \<open>Python's truth value of such a value, as \<open>if result:\<close> and \<open>or\<close> test it.\<close>

fun truthy :: "json \<Rightarrow> bool" where
  "truthy JNull = False"
| "truthy (JBool b) = b"
| "truthy (JInt n) = (n \<noteq> 0)"
| "truthy (JStr s) = (s \<noteq> [])"
| "truthy (JArr xs) = (xs \<noteq> [])"
| "truthy (JObj kvs) = (kvs \<noteq> [])"

text \<open>\<open>result.get(k)\<close>: only a dict has the method; a missing key gives \<open>None\<close>.\<close>

fun py_get :: "json \<Rightarrow> string \<Rightarrow> exn + json" where
  "py_get (JObj kvs) k = Inr (case map_of kvs k of None \<Rightarrow> JNull | Some v \<Rightarrow> v)"
| "py_get _ k = Inl AttributeError"

text \<open>
  The key under which a dict stores a value: lists and dicts are unhashable, and \<open>True\<close>,
  \<open>False\<close> are the keys \<open>1\<close>, \<open>0\<close>.
\<close>

fun dict_key :: "json \<Rightarrow> exn + json" where
  "dict_key (JArr xs) = Inl TypeError"
| "dict_key (JObj kvs) = Inl TypeError"
| "dict_key (JBool b) = Inr (JInt (if b then 1 else 0))"
| "dict_key j = Inr j"

record request =
  req_url :: string
  req_headers :: "(string \<times> string) list"
  req_origin :: string
  req_message :: "segment list"
  req_timeout :: nat

text \<open>
  An HTTP response: its status, and what \<open>await resp.json()\<close> and \<open>await resp.text()\<close>
  give when they are called.
\<close>

record response =
  status :: int
  json_body :: "exn + json"
  text_body :: "exn + string"

text \<open>A decoded bitmap of the imaging library: its mode, its size and its pixels.\<close>

record image =
  img_mode :: string
  img_size :: "nat \<times> nat"
  img_pixels :: "nat list"

text \<open>
  Everything outside the class. The gateway and the image host answer the \<open>n\<close>-th call of
  a run by \<open>http_post n\<close> and \<open>download_image_with_referer n\<close>. The imaging library, the
  helpers of \<open>utils\<close> and the float formatting \<open>f"{score*100:.0f}"\<close> are parameters, each
  of them free to raise where its Python original can.
\<close>

record 'f env =
  fmt_percent :: "'f \<Rightarrow> string"
  http_post :: "nat \<Rightarrow> request \<Rightarrow> exn + response"
  import_image_deps :: "exn option"
  download_image_with_referer :: "nat \<Rightarrow> string \<Rightarrow> exn + nat list option"
  image_open :: "nat list \<Rightarrow> exn + image"
  image_convert :: "image \<Rightarrow> string \<Rightarrow> exn + image"
  image_paste_on_white :: "image \<Rightarrow> exn + image"
  image_thumbnail :: "image \<Rightarrow> int \<Rightarrow> exn + image"
  image_save_jpeg :: "image \<Rightarrow> int \<Rightarrow> exn + nat list"
  b64encode :: "nat list \<Rightarrow> string"
  get_pixiv_cat_url :: "int \<Rightarrow> exn + string"

datatype logmsg =
    LogPostOk json
  | LogPostFailed int string
  | LogHttpError
  | LogTimeout
  | LogImageFailed exn
  | LogSendFailed int exn
  | LogSendDone nat nat

text \<open>What a run does to the outside, in order.\<close>

datatype event = EvPost request | EvDownload string | EvSleep nat | EvLog logmsg

datatype session = NoSession | SessionOpen | SessionClosed

text \<open>
  The notifier's mutable fields (\<open>_session\<close>, \<open>_message_illust_map\<close>), the trace of
  events so far, and the number of calls made so far to the gateway and to the image host.
\<close>

record state =
  session :: session
  message_illust_map :: "json \<Rightarrow> int option"
  trace :: "event list"
  n_posts :: nat
  n_downloads :: nat

definition init_state :: state where
  "init_state = \<lparr>session = NoSession, message_illust_map = Map.empty, trace = [],
                  n_posts = 0, n_downloads = 0\<rparr>"

definition emit :: "event \<Rightarrow> state \<Rightarrow> state" where
  "emit e s = s\<lparr>trace := trace s @ [e]\<rparr>"

section \<open>The transport session\<close>

definition ensure_session :: "state \<Rightarrow> state" where
  "ensure_session s = (if session s = NoSession \<or> session s = SessionClosed
                       then s\<lparr>session := SessionOpen\<rparr> else s)"

definition close :: "state \<Rightarrow> state" where
  "close s = (if session s = SessionOpen then s\<lparr>session := SessionClosed\<rparr> else s)"

section \<open>\<open>_post_message\<close>\<close>

definition post_headers :: "config \<Rightarrow> (string \<times> string) list" where
  "post_headers cfg =
     (''Content-Type'', ''application/json'') #
     (case api_key cfg of
        None \<Rightarrow> []
      | Some k \<Rightarrow> if k = [] then [] else [(''Authorization'', ''Bearer '' @ k)])"

definition post_request :: "config \<Rightarrow> segment list \<Rightarrow> request" where
  "post_request cfg message_chain =
     \<lparr>req_url = http_url cfg @ ''/api/v1/send'', req_headers = post_headers cfg,
      req_origin = unified_msg_origin cfg, req_message = message_chain, req_timeout = 30\<rparr>"

text \<open>The body of the \<open>async with\<close>: the value returned and the line logged.\<close>

definition read_response :: "response \<Rightarrow> exn + json \<times> logmsg" where
  "read_response resp =
     (if status resp = 200 then
        (case json_body resp of
           Inl e \<Rightarrow> Inl e
         | Inr result \<Rightarrow> Inr (result, LogPostOk result))
      else
        (case text_body resp of
           Inl e \<Rightarrow> Inl e
         | Inr text \<Rightarrow> Inr (JNull, LogPostFailed (status resp) text)))"

text \<open>
  The two \<open>except\<close> clauses turn a client error and a timeout into \<open>None\<close>; any other
  exception leaves the method.
\<close>

definition post_message :: "'f env \<Rightarrow> config \<Rightarrow> segment list \<Rightarrow> state \<Rightarrow> (exn + json) \<times> state" where
  "post_message env cfg message_chain s0 =
     (let s1 = ensure_session s0;
          req = post_request cfg message_chain;
          s2 = emit (EvPost req) (s1\<lparr>n_posts := Suc (n_posts s1)\<rparr>)
      in case (case http_post env (n_posts s1) req of
                 Inl e \<Rightarrow> Inl e
               | Inr resp \<Rightarrow> read_response resp) of
           Inr (result, l) \<Rightarrow> (Inr result, emit (EvLog l) s2)
         | Inl ClientError \<Rightarrow> (Inr JNull, emit (EvLog LogHttpError) s2)
         | Inl TimeoutError \<Rightarrow> (Inr JNull, emit (EvLog LogTimeout) s2)
         | Inl e \<Rightarrow> (Inl e, s2))"

section \<open>\<open>_download_and_encode_image\<close>\<close>

text \<open>Lines 131 to 138: palette and alpha images are flattened onto white, others converted.\<close>

definition normalize_mode :: "'f env \<Rightarrow> image \<Rightarrow> exn + image" where
  "normalize_mode env img0 =
     (case (if img_mode img0 = ''P'' then image_convert env img0 ''RGBA'' else Inr img0) of
        Inl e \<Rightarrow> Inl e
      | Inr img \<Rightarrow>
          if img_mode img = ''RGBA'' \<or> img_mode img = ''LA'' then image_paste_on_white env img
          else if img_mode img \<noteq> ''RGB'' then image_convert env img ''RGB''
          else Inr img)"

text \<open>Lines 129 to 148: decode, normalise, downscale, encode.\<close>

definition encode_image :: "'f env \<Rightarrow> config \<Rightarrow> nat list \<Rightarrow> exn + string" where
  "encode_image env cfg image_data =
     (case image_open env image_data of
        Inl e \<Rightarrow> Inl e
      | Inr img0 \<Rightarrow>
          (case normalize_mode env img0 of
             Inl e \<Rightarrow> Inl e
           | Inr img1 \<Rightarrow>
               (case (if int (max (fst (img_size img1)) (snd (img_size img1))) > max_image_size cfg
                      then image_thumbnail env img1 (max_image_size cfg) else Inr img1) of
                  Inl e \<Rightarrow> Inl e
                | Inr img2 \<Rightarrow>
                    (case image_save_jpeg env img2 (image_quality cfg) of
                       Inl e \<Rightarrow> Inl e
                     | Inr output \<Rightarrow> Inr (b64encode env output)))))"

text \<open>The \<open>try\<close> block, lines 119 to 148.\<close>

definition download_and_encode_body ::
    "'f env \<Rightarrow> config \<Rightarrow> string \<Rightarrow> state \<Rightarrow> (exn + string option) \<times> state" where
  "download_and_encode_body env cfg url s0 =
     (case import_image_deps env of
        Some e \<Rightarrow> (Inl e, s0)
      | None \<Rightarrow>
          (let s1 = ensure_session s0;
               s2 = emit (EvDownload url) (s1\<lparr>n_downloads := Suc (n_downloads s1)\<rparr>)
           in case download_image_with_referer env (n_downloads s1) url of
                Inl e \<Rightarrow> (Inl e, s2)
              | Inr None \<Rightarrow> (Inr None, s2)
              | Inr (Some image_data) \<Rightarrow>
                  if image_data = [] then (Inr None, s2)
                  else (case encode_image env cfg image_data of
                          Inl e \<Rightarrow> (Inl e, s2)
                        | Inr b64 \<Rightarrow> (Inr (Some b64), s2))))"

text \<open>The method: \<open>except Exception\<close> logs a warning and returns \<open>None\<close>.\<close>

definition download_and_encode_image ::
    "'f env \<Rightarrow> config \<Rightarrow> string \<Rightarrow> state \<Rightarrow> (exn + string option) \<times> state" where
  "download_and_encode_image env cfg url s0 =
     (case download_and_encode_body env cfg url s0 of
        (Inl e, s) \<Rightarrow> (Inr None, emit (EvLog (LogImageFailed e)) s)
      | (Inr r, s) \<Rightarrow> (Inr r, s))"

section \<open>\<open>format_message\<close>\<close>

text \<open>Line 156: the generator under \<open>" ".join\<close>.\<close>

definition shown_tags :: "'f illust \<Rightarrow> string list" where
  "shown_tags illust = map (\<lambda>t. CHR ''#'' # t) (take 5 (tags illust))"

definition page_info :: "'f illust \<Rightarrow> string" where
  "page_info illust =
     (if page_count illust > 1 then '' ('' @ str_int (page_count illust) @ ''P)'' else [])"

definition long_mark :: "config \<Rightarrow> 'f illust \<Rightarrow> string" where
  "long_mark cfg illust = (if page_count illust > max_pages cfg then long_emoji @ '' '' else [])"

definition format_message :: "'f env \<Rightarrow> config \<Rightarrow> 'f illust \<Rightarrow> string" where
  "format_message env cfg illust =
     (let tags_text = join '' '' (shown_tags illust);
          r18_mark = (if is_r18 illust then r18_emoji @ '' '' else []);
          ugoira_mark =
            (if (case illust_type illust of None \<Rightarrow> ''illust'' | Some t \<Rightarrow> t) = ''ugoira''
             then ugoira_emoji @ '' '' else []);
          match_line =
            (case match_score illust of
               None \<Rightarrow> []
             | Some sc \<Rightarrow> score_emoji @ '' '' @ score_label @ '': '' @ fmt_percent env sc @ ''%'' @ nl)
      in long_mark cfg illust @ r18_mark @ ugoira_mark @ title_emoji @ '' '' @ title illust
           @ page_info illust @ nl
         @ user_emoji @ '' '' @ user_name illust @ nl
         @ bookmark_emoji @ '' '' @ str_int (bookmark_count illust) @ nl
         @ match_line
         @ tags_emoji @ '' '' @ tags_text @ nl
         @ link_emoji @ '' https://pixiv.net/i/'' @ str_int (illust_id illust) @ nl @ nl
         @ reply_word @ '' '' @ str_int (illust_id illust) @ '' 1='' @ like_word
           @ '' 2='' @ dislike_word)"

section \<open>\<open>send\<close>\<close>

text \<open>Lines 199 to 205: the link to the mirror, when the cover could not be embedded.\<close>

definition fallback_segment :: "'f env \<Rightarrow> 'f illust \<Rightarrow> exn + segment list" where
  "fallback_segment env illust =
     (case get_pixiv_cat_url env (illust_id illust) of
        Inl e \<Rightarrow> Inl e
      | Inr cat_url \<Rightarrow> Inr [ImageUrl cat_url])"

text \<open>Lines 188 to 205. \<open>if img_b64:\<close> is false for \<open>None\<close> and for the empty string.\<close>

definition image_segments ::
    "'f env \<Rightarrow> config \<Rightarrow> 'f illust \<Rightarrow> state \<Rightarrow> (exn + segment list) \<times> state" where
  "image_segments env cfg illust s =
     (case image_urls illust of
        [] \<Rightarrow> (Inr [], s)
      | cover_url # _ \<Rightarrow>
          (case download_and_encode_image env cfg cover_url s of
             (Inl e, s1) \<Rightarrow> (Inl e, s1)
           | (Inr None, s1) \<Rightarrow> (fallback_segment env illust, s1)
           | (Inr (Some img_b64), s1) \<Rightarrow>
               if img_b64 \<noteq> [] then (Inr [ImageBase64 img_b64], s1)
               else (fallback_segment env illust, s1)))"

text \<open>Lines 185 to 212: the message chain of one record.\<close>

definition build_chain ::
    "'f env \<Rightarrow> config \<Rightarrow> 'f illust \<Rightarrow> state \<Rightarrow> (exn + segment list) \<times> state" where
  "build_chain env cfg illust s =
     (case image_segments env cfg illust s of
        (Inl e, s1) \<Rightarrow> (Inl e, s1)
      | (Inr message_chain, s1) \<Rightarrow>
          (Inr (message_chain @ [Plain (format_message env cfg illust)]), s1))"

text \<open>Line 220: \<open>result.get("message_id") or result.get("msg_id")\<close>.\<close>

definition extract_msg_id :: "json \<Rightarrow> exn + json" where
  "extract_msg_id result =
     (case py_get result ''message_id'' of
        Inl e \<Rightarrow> Inl e
      | Inr a \<Rightarrow> if truthy a then Inr a else py_get result ''msg_id'')"

text \<open>Lines 220 to 222.\<close>

definition record_mapping :: "json \<Rightarrow> int \<Rightarrow> state \<Rightarrow> exn option \<times> state" where
  "record_mapping result iid s =
     (case extract_msg_id result of
        Inl e \<Rightarrow> (Some e, s)
      | Inr msg_id \<Rightarrow>
          if truthy msg_id then
            (case dict_key msg_id of
               Inl e \<Rightarrow> (Some e, s)
             | Inr k \<Rightarrow> (None, s\<lparr>message_illust_map := (message_illust_map s)(k \<mapsto> iid)\<rparr>))
          else (None, s))"

text \<open>
  The \<open>try\<close> block of the loop, lines 185 to 225, for one record: the exception that left
  it, if any, the success list and the state.
\<close>

definition process_illust ::
    "'f env \<Rightarrow> config \<Rightarrow> 'f illust \<Rightarrow> int list \<Rightarrow> state \<Rightarrow> exn option \<times> int list \<times> state" where
  "process_illust env cfg illust success_ids s =
     (case build_chain env cfg illust s of
        (Inl e, s1) \<Rightarrow> (Some e, success_ids, s1)
      | (Inr message_chain, s1) \<Rightarrow>
          (case post_message env cfg message_chain s1 of
             (Inl e, s2) \<Rightarrow> (Some e, success_ids, s2)
           | (Inr result, s2) \<Rightarrow>
               if truthy result then
                 (case record_mapping result (illust_id illust) s2 of
                    (Some e, s3) \<Rightarrow> (Some e, success_ids @ [illust_id illust], s3)
                  | (None, s3) \<Rightarrow> (None, success_ids @ [illust_id illust], emit (EvSleep 1) s3))
               else (None, success_ids, emit (EvSleep 1) s2)))"

text \<open>One iteration of the loop: \<open>except Exception\<close> logs the error and goes on.\<close>

definition send_step ::
    "'f env \<Rightarrow> config \<Rightarrow> 'f illust \<Rightarrow> int list \<Rightarrow> state \<Rightarrow> int list \<times> state" where
  "send_step env cfg illust success_ids s =
     (case process_illust env cfg illust success_ids s of
        (Some e, ids, s') \<Rightarrow> (ids, emit (EvLog (LogSendFailed (illust_id illust) e)) s')
      | (None, ids, s') \<Rightarrow> (ids, s'))"

fun send_loop ::
    "'f env \<Rightarrow> config \<Rightarrow> 'f illust list \<Rightarrow> int list \<Rightarrow> state \<Rightarrow> int list \<times> state" where
  "send_loop env cfg [] success_ids s = (success_ids, s)"
| "send_loop env cfg (illust # rest) success_ids s =
     (case send_step env cfg illust success_ids s of
        (ids, s') \<Rightarrow> send_loop env cfg rest ids s')"

definition send :: "'f env \<Rightarrow> config \<Rightarrow> 'f illust list \<Rightarrow> state \<Rightarrow> int list \<times> state" where
  "send env cfg illusts s =
     (if illusts = [] then ([], s)
      else (case send_loop env cfg illusts [] s of
              (ids, s') \<Rightarrow> (ids, emit (EvLog (LogSendDone (length ids) (length illusts))) s')))"

section \<open>\<open>send_text\<close>\<close>

text \<open>Lines 235 to 241. \<open>if buttons:\<close> is false for \<open>None\<close> and for the empty list.\<close>

definition text_chain :: "string \<Rightarrow> (string \<times> string) list option \<Rightarrow> segment list" where
  "text_chain text buttons =
     (case buttons of
        None \<Rightarrow> [Plain text]
      | Some bs \<Rightarrow>
          if bs = [] then [Plain text]
          else [Plain (text @ nl @ nl @ join nl (map (\<lambda>(label, _). bullet @ '' '' @ label) bs))])"

definition send_text ::
    "'f env \<Rightarrow> config \<Rightarrow> string \<Rightarrow> (string \<times> string) list option \<Rightarrow> state \<Rightarrow> (exn + bool) \<times> state" where
  "send_text env cfg text buttons s =
     (case post_message env cfg (text_chain text buttons) s of
        (Inl e, s') \<Rightarrow> (Inl e, s')
      | (Inr result, s') \<Rightarrow> (Inr (result \<noteq> JNull), s'))"

section \<open>\<open>handle_feedback\<close>\<close>

text \<open>
  The callback \<open>on_feedback\<close> is code of the caller: it acts on a world \<open>'c\<close> of its own
  and may raise. The method does not catch what it raises.
\<close>

definition handle_feedback ::
    "(int \<Rightarrow> string \<Rightarrow> 'c \<Rightarrow> exn option \<times> 'c) option \<Rightarrow> int \<Rightarrow> string \<Rightarrow> 'c \<Rightarrow> (exn + bool) \<times> 'c" where
  "handle_feedback on_feedback illust_id' action c =
     (case on_feedback of
        None \<Rightarrow> (Inr True, c)
      | Some callback \<Rightarrow>
          (case callback illust_id' action c of
             (Some e, c') \<Rightarrow> (Inl e, c')
           | (None, c') \<Rightarrow> (Inr True, c')))"

section \<open>Reading a trace\<close>

text \<open>The requests posted, the pauses taken and the records given up, in order.\<close>

fun posted :: "event list \<Rightarrow> request list" where
  "posted [] = []"
| "posted (EvPost r # tr) = r # posted tr"
| "posted (_ # tr) = posted tr"

fun sleeps :: "event list \<Rightarrow> nat list" where
  "sleeps [] = []"
| "sleeps (EvSleep d # tr) = d # sleeps tr"
| "sleeps (_ # tr) = sleeps tr"

fun send_failures :: "event list \<Rightarrow> (int \<times> exn) list" where
  "send_failures [] = []"
| "send_failures (EvLog (LogSendFailed i e) # tr) = (i, e) # send_failures tr"
| "send_failures (_ # tr) = send_failures tr"

fun is_image :: "segment \<Rightarrow> bool" where
  "is_image (Plain t) = False"
| "is_image (ImageBase64 b) = True"
| "is_image (ImageUrl u) = True"

section \<open>Scenarios\<close>

text \<open>
  Concrete configurations, records and outside worlds on which the theorems below are
  instantiated. The gateway of \<open>scripted_env\<close> answers the \<open>n\<close>-th POST with the \<open>n\<close>-th
  entry of a script and is unreachable afterwards; its image host is unreachable.
\<close>

definition demo_cfg :: config where
  "demo_cfg = init_config ''http://127.0.0.1:6185/'' ''QQOfficial:group:123456'' None 10 85 1500"

definition demo_illust :: "int \<Rightarrow> string list \<Rightarrow> unit illust" where
  "demo_illust n urls =
     \<lparr>illust_id = n, title = ''Sky'', user_name = ''mio'', bookmark_count = 120,
      tags = [''sky'', ''cloud''], page_count = 1, illust_type = Some ''illust'', is_r18 = False,
      match_score = None, image_urls = urls\<rparr>"

definition ok_response :: "json \<Rightarrow> response" where
  "ok_response j = \<lparr>status = 200, json_body = Inr j, text_body = Inr []\<rparr>"

definition bad_json_response :: response where
  "bad_json_response =
     \<lparr>status = 200, json_body = Inl (OtherException ''JSONDecodeError''), text_body = Inr ''ok''\<rparr>"

definition error_response :: "int \<Rightarrow> response" where
  "error_response code =
     \<lparr>status = code, json_body = Inl (OtherException ''JSONDecodeError''),
      text_body = Inr ''Internal Server Error''\<rparr>"

definition scripted_env :: "(exn + response) list \<Rightarrow> unit env" where
  "scripted_env replies =
     \<lparr>fmt_percent = (\<lambda>_. ''0''),
      http_post = (\<lambda>n req. if n < length replies then replies ! n else Inl ClientError),
      import_image_deps = None,
      download_image_with_referer = (\<lambda>n url. Inl ClientError),
      image_open = (\<lambda>d. Inl (OtherException ''UnidentifiedImageError'')),
      image_convert = (\<lambda>img m. Inr (img\<lparr>img_mode := m\<rparr>)),
      image_paste_on_white = (\<lambda>img. Inr (img\<lparr>img_mode := ''RGB''\<rparr>)),
      image_thumbnail = (\<lambda>img m. Inr img),
      image_save_jpeg = (\<lambda>img q. Inr (img_pixels img)),
      b64encode = map char_of,
      get_pixiv_cat_url = (\<lambda>i. Inr (''https://pixiv.cat/'' @ str_int i @ ''.jpg''))\<rparr>"

definition manga_illust :: "unit illust" where
  "manga_illust =
     \<lparr>illust_id = 98765, title = ''Night'', user_name = ''rin'', bookmark_count = 1500,
      tags = [''a'', ''b'', ''c'', ''d'', ''e'', ''f'', ''g''], page_count = 12,
      illust_type = Some ''manga'', is_r18 = True, match_score = Some (),
      image_urls = [''https://i.pximg.net/img/98765_p0.jpg'']\<rparr>"

text \<open>The image host of \<open>corrupt_image_env\<close> delivers bytes that the imaging library rejects.\<close>

definition corrupt_image_env :: "unit env" where
  "corrupt_image_env =
     (scripted_env [])\<lparr>download_image_with_referer := (\<lambda>n url. Inr (Some [71, 73, 70]))\<rparr>"

definition raising_callback :: "int \<Rightarrow> string \<Rightarrow> (int \<times> string) list \<Rightarrow> exn option \<times> (int \<times> string) list" where
  "raising_callback i action seen = (Some (OtherException ''database is locked''), seen)"

definition storing_callback :: "int \<Rightarrow> string \<Rightarrow> (int \<times> string) list \<Rightarrow> exn option \<times> (int \<times> string) list" where
  "storing_callback i action seen = (None, seen @ [(i, action)])"

section \<open>The success list\<close>

lemma process_illust_ids:
  "process_illust env cfg i ids s = (r, ids', s') \<Longrightarrow> ids' = ids \<or> ids' = ids @ [illust_id i]"
  by (auto simp: process_illust_def split: prod.splits sum.splits option.splits if_splits)

lemma send_step_ids:
  "send_step env cfg i ids s = (ids', s') \<Longrightarrow> ids' = ids \<or> ids' = ids @ [illust_id i]"
  by (auto simp: send_step_def split: prod.splits option.splits dest: process_illust_ids)

lemma send_loop_ids:
  "\<exists>zs. fst (send_loop env cfg xs ids s) = ids @ zs \<and> subseq zs (map illust_id xs)"
proof (induction xs arbitrary: ids s)
  case Nil
  show ?case by simp
next
  case (Cons x xs)
  obtain ids' s' where st: "send_step env cfg x ids s = (ids', s')"
    by (cases "send_step env cfg x ids s")
  from Cons.IH [of ids' s'] obtain zs where
    zs: "fst (send_loop env cfg xs ids' s') = ids' @ zs" "subseq zs (map illust_id xs)"
    by blast
  from send_step_ids [OF st] show ?case
  proof
    assume "ids' = ids"
    with st zs show ?thesis by (auto intro!: exI [of _ zs])
  next
    assume "ids' = ids @ [illust_id x]"
    with st zs show ?thesis by (auto intro!: exI [of _ "illust_id x # zs"])
  qed
qed

text \<open>
  Claim C9. For every batch, every state of the notifier and every behaviour of the
  outside, the list that \<open>send\<close> returns is a subsequence of the identifiers of the input
  records in input order: each returned identifier is the identifier of an input
  record, the order of the records is kept, and a record contributes its identifier at
  most once.
\<close>

theorem send_returns_subsequence:
  "subseq (fst (send env cfg illusts s)) (map illust_id illusts)"
proof (cases "illusts = []")
  case True
  then show ?thesis by (simp add: send_def)
next
  case False
  from send_loop_ids [of env cfg illusts "[]" s] obtain zs where
    "fst (send_loop env cfg illusts [] s) = zs" "subseq zs (map illust_id illusts)"
    by auto
  with False show ?thesis by (auto simp: send_def split: prod.splits)
qed

section \<open>Buttons of \<open>send_text\<close>\<close>

lemma bullets_labels:
  "map (\<lambda>(label, _). bullet @ '' '' @ label) bs = map (\<lambda>l. bullet @ '' '' @ l) (map fst bs)"
  by (induction bs) auto

lemma text_chain_labels:
  assumes eq: "map fst bs1 = map fst bs2"
  shows "text_chain text (Some bs1) = text_chain text (Some bs2)"
proof -
  from eq have e: "bs1 = [] \<longleftrightarrow> bs2 = []" by (metis map_is_Nil_conv)
  show ?thesis by (simp only: text_chain_def bullets_labels eq e option.case)
qed

text \<open>
  Claim C10. What \<open>send_text\<close> posts does not depend on the actions of the buttons: two
  button lists with the same sequence of labels give the same message chain, hence the
  same request to the gateway, the same result and the same state, whatever their action
  strings are.
\<close>

theorem send_text_independent_of_actions:
  "map fst bs1 = map fst bs2 \<Longrightarrow>
     text_chain text (Some bs1) = text_chain text (Some bs2) \<and>
     send_text env cfg text (Some bs1) s = send_text env cfg text (Some bs2) s"
  using text_chain_labels [of bs1 bs2 "text"] by (simp add: send_text_def)

theorem send_text_independent_of_actions_witness:
  "map fst [(''Like'', ''like:1''), (''Skip'', ''skip:1'')] = map fst [(''Like'', ''x''), (''Skip'', ''y'')] \<and>
   text_chain ''hi'' (Some [(''Like'', ''like:1''), (''Skip'', ''skip:1'')]) =
     text_chain ''hi'' (Some [(''Like'', ''x''), (''Skip'', ''y'')]) \<and>
   text_chain ''hi'' (Some [(''Like'', ''like:1''), (''Skip'', ''skip:1'')]) =
     [Plain (''hi'' @ nl @ nl @ bullet @ '' Like'' @ nl @ bullet @ '' Skip'')]"
  using send_text_independent_of_actions
    [of "[(''Like'', ''like:1''), (''Skip'', ''skip:1'')]" "[(''Like'', ''x''), (''Skip'', ''y'')]" "''hi''"]
  by (simp add: text_chain_def)

section \<open>What each layer does to the state\<close>

lemma posted_append [simp]: "posted (a @ b) = posted a @ posted b"
  by (induction a rule: posted.induct) auto

lemma sleeps_append [simp]: "sleeps (a @ b) = sleeps a @ sleeps b"
  by (induction a rule: sleeps.induct) auto

lemma send_failures_append [simp]: "send_failures (a @ b) = send_failures a @ send_failures b"
  by (induction a rule: send_failures.induct) auto

lemma ensure_session_frame [simp]:
  "trace (ensure_session s) = trace s"
  "n_posts (ensure_session s) = n_posts s"
  "n_downloads (ensure_session s) = n_downloads s"
  "message_illust_map (ensure_session s) = message_illust_map s"
  by (simp_all add: ensure_session_def)

lemma emit_frame [simp]:
  "trace (emit e s) = trace s @ [e]"
  "n_posts (emit e s) = n_posts s"
  "n_downloads (emit e s) = n_downloads s"
  "message_illust_map (emit e s) = message_illust_map s"
  "session (emit e s) = session s"
  by (simp_all add: emit_def)

lemma download_body_frame:
  assumes "download_and_encode_body env cfg url s = (r, s')"
  shows "posted (trace s') = posted (trace s)" "sleeps (trace s') = sleeps (trace s)"
    "send_failures (trace s') = send_failures (trace s)"
    "n_posts s' = n_posts s" "message_illust_map s' = message_illust_map s"
  using assms
  by (auto simp: download_and_encode_body_def Let_def split: option.splits sum.splits if_splits)

lemma download_frame:
  assumes "download_and_encode_image env cfg url s = (r, s')"
  shows "posted (trace s') = posted (trace s)" "sleeps (trace s') = sleeps (trace s)"
    "send_failures (trace s') = send_failures (trace s)"
    "n_posts s' = n_posts s" "message_illust_map s' = message_illust_map s"
  using assms download_body_frame [of env cfg url s]
  by (auto simp: download_and_encode_image_def split: prod.splits sum.splits)

lemma download_never_raises:
  "\<exists>r. fst (download_and_encode_image env cfg url s) = Inr r"
  by (simp add: download_and_encode_image_def split: prod.splits sum.splits)

lemma post_message_frame:
  assumes "post_message env cfg chain s = (r, s')"
  shows "posted (trace s') = posted (trace s) @ [post_request cfg chain]"
    "sleeps (trace s') = sleeps (trace s)"
    "send_failures (trace s') = send_failures (trace s)"
    "n_posts s' = Suc (n_posts s)" "message_illust_map s' = message_illust_map s"
  using assms
  by (auto simp: post_message_def Let_def read_response_def
      split: sum.splits exn.splits prod.splits if_splits)

lemma post_message_200:
  assumes "http_post env (n_posts s) (post_request cfg chain) = Inr resp"
    and "status resp = 200" and "json_body resp = Inr j"
  shows "fst (post_message env cfg chain s) = Inr j"
  using assms by (simp add: post_message_def Let_def read_response_def)

lemma post_message_not_200:
  assumes "http_post env (n_posts s) (post_request cfg chain) = Inr resp"
    and "status resp \<noteq> 200"
  shows "fst (post_message env cfg chain s) = Inr JNull \<or> (\<exists>e. fst (post_message env cfg chain s) = Inl e)"
  using assms
  by (auto simp: post_message_def Let_def read_response_def split: sum.splits exn.splits)

lemma image_segments_frame:
  assumes "image_segments env cfg i s = (r, s')"
  shows "posted (trace s') = posted (trace s)" "sleeps (trace s') = sleeps (trace s)"
    "send_failures (trace s') = send_failures (trace s)"
    "n_posts s' = n_posts s" "message_illust_map s' = message_illust_map s"
  using assms
  by (auto simp: image_segments_def split: list.splits prod.splits sum.splits option.splits if_splits
      dest: download_frame)

lemma build_chain_frame:
  assumes "build_chain env cfg i s = (r, s')"
  shows "posted (trace s') = posted (trace s)" "sleeps (trace s') = sleeps (trace s)"
    "send_failures (trace s') = send_failures (trace s)"
    "n_posts s' = n_posts s" "message_illust_map s' = message_illust_map s"
  using assms
  by (auto simp: build_chain_def split: prod.splits sum.splits dest: image_segments_frame)

lemma image_segments_shape:
  assumes "image_segments env cfg i s = (Inr imgs, s')"
  shows "length imgs \<le> 1 \<and> (\<forall>x\<in>set imgs. is_image x) \<and> (imgs = [] \<longleftrightarrow> image_urls i = [])"
  using assms
  by (auto simp: image_segments_def fallback_segment_def
      split: list.splits prod.splits sum.splits option.splits if_splits)

lemma build_chain_shape:
  assumes "build_chain env cfg i s = (Inr chain, s')"
  shows "\<exists>imgs. chain = imgs @ [Plain (format_message env cfg i)] \<and> length imgs \<le> 1 \<and>
           (\<forall>x\<in>set imgs. is_image x) \<and> (imgs = [] \<longleftrightarrow> image_urls i = [])"
  using assms
  by (auto simp: build_chain_def split: prod.splits sum.splits dest: image_segments_shape)

lemma build_chain_fallback:
  assumes "image_urls i = u # us" and "fst (download_and_encode_image env cfg u s) = Inr None"
  shows "fst (build_chain env cfg i s) =
           (case get_pixiv_cat_url env (illust_id i) of
              Inl e \<Rightarrow> Inl e
            | Inr cat_url \<Rightarrow> Inr [ImageUrl cat_url, Plain (format_message env cfg i)])"
  using assms
  by (auto simp: build_chain_def image_segments_def fallback_segment_def
      split: prod.splits sum.splits option.splits)

lemma record_mapping_frame:
  assumes "record_mapping result iid s = (r, s')"
  shows "trace s' = trace s" "n_posts s' = n_posts s"
  using assms
  by (auto simp: record_mapping_def split: sum.splits if_splits)

lemma image_segments_total:
  assumes "get_pixiv_cat_url env (illust_id i) = Inr u"
  shows "\<exists>imgs s1. image_segments env cfg i s = (Inr imgs, s1)"
proof (cases "image_urls i")
  case Nil
  then show ?thesis by (simp add: image_segments_def)
next
  case (Cons c cs)
  obtain r s1 where d: "download_and_encode_image env cfg c s = (r, s1)"
    by (cases "download_and_encode_image env cfg c s")
  from download_never_raises [of env cfg c s] d obtain b where "r = Inr b" by auto
  with d Cons assms show ?thesis
    by (auto simp: image_segments_def fallback_segment_def split: option.splits)
qed

lemma build_chain_total:
  assumes "get_pixiv_cat_url env (illust_id i) = Inr u"
  shows "\<exists>chain s1. build_chain env cfg i s = (Inr chain, s1)"
  using image_segments_total [OF assms, of cfg s] by (auto simp: build_chain_def)

lemma process_illust_posted:
  assumes "process_illust env cfg i ids s = (r, ids', s')"
  shows "posted (trace s') = posted (trace s) \<and> (\<exists>e. r = Some e) \<and> ids' = ids \<or>
         (\<exists>chain s1. build_chain env cfg i s = (Inr chain, s1) \<and>
            posted (trace s') = posted (trace s) @ [post_request cfg chain] \<and>
            n_posts s' = Suc (n_posts s))"
proof -
  obtain b s1 where bc: "build_chain env cfg i s = (b, s1)"
    by (cases "build_chain env cfg i s")
  note f1 = build_chain_frame [OF bc]
  show ?thesis
  proof (cases b)
    case (Inl e)
    with bc assms f1 show ?thesis by (auto simp: process_illust_def)
  next
    case (Inr chain)
    obtain p s2 where pm: "post_message env cfg chain s1 = (p, s2)"
      by (cases "post_message env cfg chain s1")
    note f2 = post_message_frame [OF pm]
    from assms bc Inr pm f1 f2 show ?thesis
      by (auto simp: process_illust_def split: sum.splits if_splits prod.splits option.splits
          dest: record_mapping_frame)
  qed
qed

lemma process_illust_sleeps:
  assumes "process_illust env cfg i ids s = (r, ids', s')"
  shows "send_failures (trace s') = send_failures (trace s)"
    and "r = None \<Longrightarrow> sleeps (trace s') = sleeps (trace s) @ [1] \<and> last (trace s') = EvSleep 1"
    and "r \<noteq> None \<Longrightarrow> sleeps (trace s') = sleeps (trace s)"
proof -
  obtain b s1 where bc: "build_chain env cfg i s = (b, s1)"
    by (cases "build_chain env cfg i s")
  note f1 = build_chain_frame [OF bc]
  have "send_failures (trace s') = send_failures (trace s) \<and>
        (r = None \<longrightarrow> sleeps (trace s') = sleeps (trace s) @ [1] \<and> last (trace s') = EvSleep 1) \<and>
        (r \<noteq> None \<longrightarrow> sleeps (trace s') = sleeps (trace s))"
  proof (cases b)
    case (Inl e)
    with bc assms f1 show ?thesis by (auto simp: process_illust_def)
  next
    case (Inr chain)
    obtain p s2 where pm: "post_message env cfg chain s1 = (p, s2)"
      by (cases "post_message env cfg chain s1")
    note f2 = post_message_frame [OF pm]
    from assms bc Inr pm f1 f2 show ?thesis
      by (auto simp: process_illust_def split: sum.splits if_splits prod.splits option.splits
          dest: record_mapping_frame)
  qed
  then show "send_failures (trace s') = send_failures (trace s)"
    and "r = None \<Longrightarrow> sleeps (trace s') = sleeps (trace s) @ [1] \<and> last (trace s') = EvSleep 1"
    and "r \<noteq> None \<Longrightarrow> sleeps (trace s') = sleeps (trace s)"
    by auto
qed

section \<open>One iteration of the loop\<close>

lemma send_step_outcome:
  assumes "send_step env cfg i ids s = (ids', s')"
  shows "(\<exists>ids0 s0. process_illust env cfg i ids s = (None, ids0, s0) \<and> ids' = ids0 \<and> s' = s0 \<and>
            sleeps (trace s') = sleeps (trace s) @ [1] \<and> last (trace s') = EvSleep 1 \<and>
            send_failures (trace s') = send_failures (trace s)) \<or>
         (\<exists>e ids0 s0. process_illust env cfg i ids s = (Some e, ids0, s0) \<and> ids' = ids0 \<and>
            sleeps (trace s') = sleeps (trace s) \<and>
            last (trace s') = EvLog (LogSendFailed (illust_id i) e) \<and>
            send_failures (trace s') = send_failures (trace s) @ [(illust_id i, e)])"
proof -
  obtain r ids0 s0 where p: "process_illust env cfg i ids s = (r, ids0, s0)"
    by (cases "process_illust env cfg i ids s")
  note f = process_illust_sleeps [OF p]
  show ?thesis
  proof (cases r)
    case None
    with p assms f show ?thesis by (auto simp: send_step_def)
  next
    case (Some e)
    with p assms f show ?thesis by (auto simp: send_step_def)
  qed
qed

lemma send_step_posted:
  assumes "send_step env cfg i ids s = (ids', s')"
  shows "posted (trace s') = posted (trace s) \<and>
           (\<exists>e. send_failures (trace s') = send_failures (trace s) @ [(illust_id i, e)]) \<or>
         (\<exists>chain s1. build_chain env cfg i s = (Inr chain, s1) \<and>
            posted (trace s') = posted (trace s) @ [post_request cfg chain] \<and>
            n_posts s' = Suc (n_posts s))"
proof -
  obtain r ids0 s0 where p: "process_illust env cfg i ids s = (r, ids0, s0)"
    by (cases "process_illust env cfg i ids s")
  from process_illust_posted [OF p] process_illust_sleeps(1) [OF p] assms p show ?thesis
    by (cases r) (auto simp: send_step_def)
qed

lemma send_loop_pauses:
  "send_loop env cfg xs ids s = (ids', s') \<Longrightarrow>
     length (sleeps (trace s')) + length (send_failures (trace s')) =
       length (sleeps (trace s)) + length (send_failures (trace s)) + length xs \<and>
     set (sleeps (trace s')) \<subseteq> set (sleeps (trace s)) \<union> {1}"
proof (induction xs arbitrary: ids s)
  case Nil
  then show ?case by auto
next
  case (Cons x xs)
  obtain ids1 s1 where st: "send_step env cfg x ids s = (ids1, s1)"
    by (cases "send_step env cfg x ids s")
  with Cons.prems have "send_loop env cfg xs ids1 s1 = (ids', s')" by simp
  from Cons.IH [OF this] send_step_outcome [OF st] show ?case by auto
qed

lemma demo_illust_fields [simp]:
  "illust_id (demo_illust n urls) = n" "image_urls (demo_illust n urls) = urls"
  by (simp_all add: demo_illust_def)

lemma scripted_env_fields [simp]:
  "http_post (scripted_env replies) n req = (if n < length replies then replies ! n else Inl ClientError)"
  "import_image_deps (scripted_env replies) = None"
  "download_image_with_referer (scripted_env replies) n url = Inl ClientError"
  "get_pixiv_cat_url (scripted_env replies) i = Inr (''https://pixiv.cat/'' @ str_int i @ ''.jpg'')"
  by (simp_all add: scripted_env_def)

lemma response_fields [simp]:
  "status (ok_response j) = 200" "json_body (ok_response j) = Inr j"
  "status bad_json_response = 200" "json_body bad_json_response = Inl (OtherException ''JSONDecodeError'')"
  "status (error_response c) = c" "text_body (error_response c) = Inr ''Internal Server Error''"
  by (simp_all add: ok_response_def bad_json_response_def error_response_def)

lemma process_illust_no_exception:
  assumes "build_chain env cfg i s = (Inr chain, s1)"
    and "post_message env cfg chain s1 = (Inr result, s2)"
  shows "\<not> truthy result \<Longrightarrow> process_illust env cfg i ids s = (None, ids, emit (EvSleep 1) s2)"
    and "truthy result \<Longrightarrow> record_mapping result (illust_id i) s2 = (None, s3) \<Longrightarrow>
           process_illust env cfg i ids s = (None, ids @ [illust_id i], emit (EvSleep 1) s3)"
  using assms by (simp_all add: process_illust_def)


lemma demo_step_eval:
  "send_step (scripted_env replies) cfg (demo_illust n []) ids s =
     (case post_message (scripted_env replies) cfg
             [Plain (format_message (scripted_env replies) cfg (demo_illust n []))] s of
        (Inl e, s2) \<Rightarrow> (ids, emit (EvLog (LogSendFailed n e)) s2)
      | (Inr result, s2) \<Rightarrow>
          if truthy result then
            (case record_mapping result n s2 of
               (Some e, s3) \<Rightarrow> (ids @ [n], emit (EvLog (LogSendFailed n e)) s3)
             | (None, s3) \<Rightarrow> (ids @ [n], emit (EvSleep 1) s3))
          else (ids, emit (EvSleep 1) s2))"
  by (simp add: send_step_def process_illust_def build_chain_def image_segments_def
      split: prod.splits sum.splits option.splits)


lemma send_step_attempt:
  assumes "send_step env cfg i ids s = (ids', s')"
  shows "\<exists>ps fs. posted (trace s') = posted (trace s) @ ps \<and>
           send_failures (trace s') = send_failures (trace s) @ fs \<and>
           ((\<exists>r\<in>set ps. last (req_message r) = Plain (format_message env cfg i)) \<or>
            (\<exists>e. (illust_id i, e) \<in> set fs))"
proof -
  from send_step_outcome [OF assms] obtain fs where
    fs: "send_failures (trace s') = send_failures (trace s) @ fs" by auto
  from send_step_posted [OF assms] show ?thesis
  proof
    assume "posted (trace s') = posted (trace s) \<and>
           (\<exists>e. send_failures (trace s') = send_failures (trace s) @ [(illust_id i, e)])"
    then obtain e where "posted (trace s') = posted (trace s) @ []"
      "send_failures (trace s') = send_failures (trace s) @ [(illust_id i, e)]" by auto
    then show ?thesis by (intro exI [of _ "[]"] exI [of _ "[(illust_id i, e)]"]) simp
  next
    assume "\<exists>chain s1. build_chain env cfg i s = (Inr chain, s1) \<and>
            posted (trace s') = posted (trace s) @ [post_request cfg chain] \<and>
            n_posts s' = Suc (n_posts s)"
    then obtain chain s1 where bc: "build_chain env cfg i s = (Inr chain, s1)"
      and p: "posted (trace s') = posted (trace s) @ [post_request cfg chain]" by auto
    from build_chain_shape [OF bc] have "last chain = Plain (format_message env cfg i)" by auto
    with p fs show ?thesis
      by (intro exI [of _ "[post_request cfg chain]"] exI [of _ fs]) (simp add: post_request_def)
  qed
qed

lemma send_loop_attempts:
  "send_loop env cfg xs ids s = (ids', s') \<Longrightarrow>
     \<exists>ps fs. posted (trace s') = posted (trace s) @ ps \<and>
       send_failures (trace s') = send_failures (trace s) @ fs \<and>
       length xs \<le> length ps + length fs \<and>
       (\<forall>x\<in>set xs. (\<exists>r\<in>set ps. last (req_message r) = Plain (format_message env cfg x)) \<or>
                     (\<exists>e. (illust_id x, e) \<in> set fs))"
proof (induction xs arbitrary: ids s)
  case Nil
  then show ?case by auto
next
  case (Cons x xs)
  obtain ids1 s1 where st: "send_step env cfg x ids s = (ids1, s1)"
    by (cases "send_step env cfg x ids s")
  with Cons.prems have lp: "send_loop env cfg xs ids1 s1 = (ids', s')" by simp
  from send_step_attempt [OF st] obtain ps1 fs1 where
    a1: "posted (trace s1) = posted (trace s) @ ps1"
    "send_failures (trace s1) = send_failures (trace s) @ fs1"
    "(\<exists>r\<in>set ps1. last (req_message r) = Plain (format_message env cfg x)) \<or>
     (\<exists>e. (illust_id x, e) \<in> set fs1)"
    by blast
  from Cons.IH [OF lp] obtain ps2 fs2 where
    a2: "posted (trace s') = posted (trace s1) @ ps2"
    "send_failures (trace s') = send_failures (trace s1) @ fs2"
    "\<forall>y\<in>set xs. (\<exists>r\<in>set ps2. last (req_message r) = Plain (format_message env cfg y)) \<or>
                  (\<exists>e. (illust_id y, e) \<in> set fs2)"
    and n2: "length xs \<le> length ps2 + length fs2"
    by blast
  from a1(3) have n1: "1 \<le> length ps1 + length fs1"
    by (cases ps1; cases fs1) auto
  show ?case
  proof (intro exI [of _ "ps1 @ ps2"] exI [of _ "fs1 @ fs2"] conjI ballI)
    show "posted (trace s') = posted (trace s) @ ps1 @ ps2" using a1 a2 by simp
    show "send_failures (trace s') = send_failures (trace s) @ fs1 @ fs2" using a1 a2 by simp
    show "length (x # xs) \<le> length (ps1 @ ps2) + length (fs1 @ fs2)" using n1 n2 by simp
    fix y assume "y \<in> set (x # xs)"
    then consider "y = x" | "y \<in> set xs" by auto
    then show "(\<exists>r\<in>set (ps1 @ ps2). last (req_message r) = Plain (format_message env cfg y)) \<or>
               (\<exists>e. (illust_id y, e) \<in> set (fs1 @ fs2))"
    proof cases
      case 1
      with a1(3) show ?thesis by auto
    next
      case 2
      with a2(3) show ?thesis by fastforce
    qed
  qed
qed

lemma process_illust_after_build:
  assumes bc: "build_chain env cfg i s = (Inr chain, s1)"
    and p: "process_illust env cfg i ids s = (r, ids', s')"
  shows "posted (trace s') = posted (trace s) @ [post_request cfg chain] \<and>
         n_posts s' = Suc (n_posts s)"
proof -
  obtain q s2 where pm: "post_message env cfg chain s1 = (q, s2)"
    by (cases "post_message env cfg chain s1")
  from p bc pm build_chain_frame [OF bc] post_message_frame [OF pm] show ?thesis
    by (auto simp: process_illust_def split: sum.splits if_splits prod.splits option.splits
        dest: record_mapping_frame)
qed

lemma send_step_after_build:
  assumes bc: "build_chain env cfg i s = (Inr chain, s1)"
    and st: "send_step env cfg i ids s = (ids', s')"
  shows "posted (trace s') = posted (trace s) @ [post_request cfg chain] \<and>
         n_posts s' = Suc (n_posts s)"
proof -
  obtain r ids0 s0 where p: "process_illust env cfg i ids s = (r, ids0, s0)"
    by (cases "process_illust env cfg i ids s")
  from process_illust_after_build [OF bc p] st p show ?thesis
    by (cases r) (auto simp: send_step_def)
qed

lemma send_step_delivered:
  assumes bc: "build_chain env cfg i s = (Inr chain, s1)"
    and hp: "http_post env (n_posts s) (post_request cfg chain) = Inr resp"
    and ok: "status resp = 200" "json_body resp = Inr j" "truthy j"
  shows "\<exists>s'. send_step env cfg i ids s = (ids @ [illust_id i], s') \<and>
           posted (trace s') = posted (trace s) @ [post_request cfg chain] \<and>
           n_posts s' = Suc (n_posts s)"
proof -
  from build_chain_frame(4) [OF bc] hp
  have "http_post env (n_posts s1) (post_request cfg chain) = Inr resp" by simp
  from post_message_200 [OF this ok(1,2)] obtain s2 where
    pm: "post_message env cfg chain s1 = (Inr j, s2)"
    by (cases "post_message env cfg chain s1") auto
  obtain ids' s' where st: "send_step env cfg i ids s = (ids', s')"
    by (cases "send_step env cfg i ids s")
  from st bc pm ok(3) have "ids' = ids @ [illust_id i]"
    by (auto simp: send_step_def process_illust_def split: prod.splits option.splits)
  with send_step_after_build [OF bc st] st show ?thesis by simp
qed

lemma send_step_rejected:
  assumes bc: "build_chain env cfg i s = (Inr chain, s1)"
    and hp: "http_post env (n_posts s) (post_request cfg chain) = Inr resp"
    and bad: "status resp \<noteq> 200"
  shows "\<exists>s'. send_step env cfg i ids s = (ids, s') \<and>
           posted (trace s') = posted (trace s) @ [post_request cfg chain] \<and>
           n_posts s' = Suc (n_posts s)"
proof -
  from build_chain_frame(4) [OF bc] hp
  have hp1: "http_post env (n_posts s1) (post_request cfg chain) = Inr resp" by simp
  obtain q s2 where pm: "post_message env cfg chain s1 = (q, s2)"
    by (cases "post_message env cfg chain s1")
  from post_message_not_200 [OF hp1 bad] pm have q: "q = Inr JNull \<or> (\<exists>e. q = Inl e)" by simp
  obtain ids' s' where st: "send_step env cfg i ids s = (ids', s')"
    by (cases "send_step env cfg i ids s")
  from st bc pm q have "ids' = ids"
    by (auto simp: send_step_def process_illust_def split: prod.splits option.splits)
  with send_step_after_build [OF bc st] st show ?thesis by simp
qed

lemma send_three_middle_rejected:
  assumes cat: "\<forall>x\<in>{a, b, c}. \<exists>u. get_pixiv_cat_url env (illust_id x) = Inr u"
    and ra: "\<forall>req. http_post env (n_posts s) req = Inr ra" "status ra = 200"
      "json_body ra = Inr ja" "truthy ja"
    and rb: "\<forall>req. http_post env (Suc (n_posts s)) req = Inr rb" "status rb \<noteq> 200"
    and rc: "\<forall>req. http_post env (Suc (Suc (n_posts s))) req = Inr rc" "status rc = 200"
      "json_body rc = Inr jc" "truthy jc"
  shows "fst (send env cfg [a, b, c] s) = [illust_id a, illust_id c] \<and>
         (\<exists>ca cb cc. posted (trace (snd (send env cfg [a, b, c] s))) =
            posted (trace s) @ [post_request cfg ca, post_request cfg cb, post_request cfg cc] \<and>
            last ca = Plain (format_message env cfg a) \<and>
            last cb = Plain (format_message env cfg b) \<and>
            last cc = Plain (format_message env cfg c))"
proof -
  from cat obtain ua where "get_pixiv_cat_url env (illust_id a) = Inr ua" by auto
  from build_chain_total [OF this] obtain ca t0 where
    bca: "build_chain env cfg a s = (Inr ca, t0)" by blast
  from ra(1) have "http_post env (n_posts s) (post_request cfg ca) = Inr ra" by simp
  from send_step_delivered [OF bca this ra(2,3,4), of "[]"] obtain s1 where
    s1: "send_step env cfg a [] s = ([illust_id a], s1)"
    "posted (trace s1) = posted (trace s) @ [post_request cfg ca]"
    "n_posts s1 = Suc (n_posts s)" by auto
  from cat obtain ub where "get_pixiv_cat_url env (illust_id b) = Inr ub" by auto
  from build_chain_total [OF this] obtain cb t1 where
    bcb: "build_chain env cfg b s1 = (Inr cb, t1)" by blast
  from rb(1) s1(3) have "http_post env (n_posts s1) (post_request cfg cb) = Inr rb" by simp
  from send_step_rejected [OF bcb this rb(2), of "[illust_id a]"] obtain s2 where
    s2: "send_step env cfg b [illust_id a] s1 = ([illust_id a], s2)"
    "posted (trace s2) = posted (trace s1) @ [post_request cfg cb]"
    "n_posts s2 = Suc (n_posts s1)" by auto
  from cat obtain uc where "get_pixiv_cat_url env (illust_id c) = Inr uc" by auto
  from build_chain_total [OF this] obtain cc t2 where
    bcc: "build_chain env cfg c s2 = (Inr cc, t2)" by blast
  from rc(1) s1(3) s2(3) have "http_post env (n_posts s2) (post_request cfg cc) = Inr rc" by simp
  from send_step_delivered [OF bcc this rc(2,3,4), of "[illust_id a]"] obtain s3 where
    s3: "send_step env cfg c [illust_id a] s2 = ([illust_id a, illust_id c], s3)"
    "posted (trace s3) = posted (trace s2) @ [post_request cfg cc]" by auto
  from s1 s2 s3 have lp: "send_loop env cfg [a, b, c] [] s = ([illust_id a, illust_id c], s3)"
    by simp
  from build_chain_shape [OF bca] have la: "last ca = Plain (format_message env cfg a)" by auto
  from build_chain_shape [OF bcb] have lb: "last cb = Plain (format_message env cfg b)" by auto
  from build_chain_shape [OF bcc] have lc: "last cc = Plain (format_message env cfg c)" by auto
  from lp have res: "send env cfg [a, b, c] s =
      ([illust_id a, illust_id c], emit (EvLog (LogSendDone 2 3)) s3)"
    by (simp add: send_def)
  from res s1(2) s2(2) s3(2)
  have ps: "posted (trace (snd (send env cfg [a, b, c] s))) =
      posted (trace s) @ [post_request cfg ca, post_request cfg cb, post_request cfg cc]"
    by simp
  show ?thesis
  proof (rule conjI)
    show "fst (send env cfg [a, b, c] s) = [illust_id a, illust_id c]" using res by simp
    from ps la lb lc
    show "\<exists>ca cb cc. posted (trace (snd (send env cfg [a, b, c] s))) =
            posted (trace s) @ [post_request cfg ca, post_request cfg cb, post_request cfg cc] \<and>
            last ca = Plain (format_message env cfg a) \<and>
            last cb = Plain (format_message env cfg b) \<and>
            last cc = Plain (format_message env cfg c)"
      by blast
  qed
qed

section \<open>The pause between records\<close>

text \<open>
  Claim C4, as stated, fails: the pause is the last statement of the \<open>try\<close> block, so a
  record whose processing raises is logged and followed at once by the next record. Here
  the gateway answers the first POST with status 200 and a body that is not JSON; the
  second POST follows the error log with no pause in between.
\<close>

theorem no_pause_after_exception_counterexample:
  "trace (snd (send (scripted_env [Inr bad_json_response, Inr (ok_response (JObj [(''message_id'', JInt 42)]))])
                 demo_cfg [demo_illust 1 [], demo_illust 2 []] init_state)) =
     [EvPost (post_request demo_cfg
        [Plain (format_message (scripted_env [Inr bad_json_response, Inr (ok_response (JObj [(''message_id'', JInt 42)]))])
                  demo_cfg (demo_illust 1 []))]),
      EvLog (LogSendFailed 1 (OtherException ''JSONDecodeError'')),
      EvPost (post_request demo_cfg
        [Plain (format_message (scripted_env [Inr bad_json_response, Inr (ok_response (JObj [(''message_id'', JInt 42)]))])
                  demo_cfg (demo_illust 2 []))]),
      EvLog (LogPostOk (JObj [(''message_id'', JInt 42)])),
      EvSleep 1,
      EvLog (LogSendDone 1 2)]"
  by (simp add: send_def demo_step_eval post_message_def read_response_def record_mapping_def
      extract_msg_id_def init_state_def emit_def ensure_session_def Let_def)

text \<open>
  Claim C4, amended. A record whose processing raises no exception, whether its delivery
  succeeded or failed, is followed by exactly one pause of 1 time unit, the last event
  before the next record. A record whose processing raises is followed by the error log
  and no pause. A delivery failure reported as \<open>None\<close> and a delivery success whose
  identifier is recorded are both processed without exception. Over a batch, the pauses
  and the logged exceptions together are as many as the records, and every pause lasts 1.
\<close>

theorem pause_after_record_without_exception:
  "(send_step env cfg i ids s = (ids', s') \<longrightarrow>
      (fst (process_illust env cfg i ids s) = None \<longrightarrow>
         sleeps (trace s') = sleeps (trace s) @ [1] \<and> last (trace s') = EvSleep 1) \<and>
      (\<forall>e. fst (process_illust env cfg i ids s) = Some e \<longrightarrow>
         sleeps (trace s') = sleeps (trace s) \<and>
         last (trace s') = EvLog (LogSendFailed (illust_id i) e))) \<and>
   (build_chain env cfg i s = (Inr chain, s1) \<longrightarrow>
      post_message env cfg chain s1 = (Inr result, s2) \<longrightarrow>
      (truthy result \<longrightarrow> fst (record_mapping result (illust_id i) s2) = None) \<longrightarrow>
      fst (process_illust env cfg i ids s) = None) \<and>
   (send_loop env cfg xs ids s = (ids'', s'') \<longrightarrow>
      length (sleeps (trace s'')) + length (send_failures (trace s'')) =
        length (sleeps (trace s)) + length (send_failures (trace s)) + length xs \<and>
      set (sleeps (trace s'')) \<subseteq> set (sleeps (trace s)) \<union> {1})"
proof (intro conjI impI allI)
  assume st: "send_step env cfg i ids s = (ids', s')"
  {
    assume "fst (process_illust env cfg i ids s) = None"
    with send_step_outcome [OF st]
    show "sleeps (trace s') = sleeps (trace s) @ [1]" and "last (trace s') = EvSleep 1"
      by auto
  }
  {
    fix e assume "fst (process_illust env cfg i ids s) = Some e"
    with send_step_outcome [OF st]
    show "sleeps (trace s') = sleeps (trace s)"
      and "last (trace s') = EvLog (LogSendFailed (illust_id i) e)"
      by auto
  }
next
  assume bc: "build_chain env cfg i s = (Inr chain, s1)"
    and pm: "post_message env cfg chain s1 = (Inr result, s2)"
    and rm: "truthy result \<longrightarrow> fst (record_mapping result (illust_id i) s2) = None"
  show "fst (process_illust env cfg i ids s) = None"
  proof (cases "truthy result")
    case False
    from process_illust_no_exception(1) [OF bc pm False] show ?thesis by simp
  next
    case True
    with rm obtain s3 where "record_mapping result (illust_id i) s2 = (None, s3)"
      by (cases "record_mapping result (illust_id i) s2") auto
    from process_illust_no_exception(2) [OF bc pm True this] show ?thesis by simp
  qed
next
  assume "send_loop env cfg xs ids s = (ids'', s'')"
  from send_loop_pauses [OF this]
  show "length (sleeps (trace s'')) + length (send_failures (trace s'')) =
          length (sleeps (trace s)) + length (send_failures (trace s)) + length xs"
    and "set (sleeps (trace s'')) \<subseteq> set (sleeps (trace s)) \<union> {1}"
    by auto
qed

theorem pause_after_record_without_exception_witness:
  "sleeps (trace (snd (send_step (scripted_env [Inr (error_response 500)]) demo_cfg (demo_illust 1 []) [] init_state))) = [1] \<and>
   last (trace (snd (send_step (scripted_env [Inr (error_response 500)]) demo_cfg (demo_illust 1 []) [] init_state))) = EvSleep 1 \<and>
   sleeps (trace (snd (send_step (scripted_env [Inr bad_json_response]) demo_cfg (demo_illust 1 []) [] init_state))) = [] \<and>
   length (sleeps (trace (snd (send_loop (scripted_env [Inr bad_json_response, Inr (error_response 500)]) demo_cfg
       [demo_illust 1 [], demo_illust 2 []] [] init_state)))) +
   length (send_failures (trace (snd (send_loop (scripted_env [Inr bad_json_response, Inr (error_response 500)]) demo_cfg
       [demo_illust 1 [], demo_illust 2 []] [] init_state)))) = 2"
proof -
  let ?E1 = "scripted_env [Inr (error_response 500)]"
  let ?E2 = "scripted_env [Inr bad_json_response]"
  let ?E3 = "scripted_env [Inr bad_json_response, Inr (error_response 500)]"
  let ?xs = "[demo_illust 1 [], demo_illust 2 []]"
  have p1: "fst (process_illust ?E1 demo_cfg (demo_illust 1 []) [] init_state) = None"
    by (simp add: process_illust_def build_chain_def image_segments_def post_message_def
        read_response_def init_state_def Let_def)
  have p2: "fst (process_illust ?E2 demo_cfg (demo_illust 1 []) [] init_state) =
      Some (OtherException ''JSONDecodeError'')"
    by (simp add: process_illust_def build_chain_def image_segments_def post_message_def
        read_response_def init_state_def Let_def)
  have t0: "trace init_state = []" by (simp add: init_state_def)
  from pause_after_record_without_exception
    [where env = ?E1 and cfg = demo_cfg and i = "demo_illust 1 []" and ids = "[]" and s = init_state
      and ids' = "fst (send_step ?E1 demo_cfg (demo_illust 1 []) [] init_state)"
      and s' = "snd (send_step ?E1 demo_cfg (demo_illust 1 []) [] init_state)"] p1 t0
  have a: "sleeps (trace (snd (send_step ?E1 demo_cfg (demo_illust 1 []) [] init_state))) = [1] \<and>
    last (trace (snd (send_step ?E1 demo_cfg (demo_illust 1 []) [] init_state))) = EvSleep 1"
    by simp
  from pause_after_record_without_exception
    [where env = ?E2 and cfg = demo_cfg and i = "demo_illust 1 []" and ids = "[]" and s = init_state
      and ids' = "fst (send_step ?E2 demo_cfg (demo_illust 1 []) [] init_state)"
      and s' = "snd (send_step ?E2 demo_cfg (demo_illust 1 []) [] init_state)"] p2 t0
  have b: "sleeps (trace (snd (send_step ?E2 demo_cfg (demo_illust 1 []) [] init_state))) = []"
    by simp
  from pause_after_record_without_exception
    [where env = ?E3 and cfg = demo_cfg and xs = ?xs and ids = "[]" and s = init_state
      and ids'' = "fst (send_loop ?E3 demo_cfg ?xs [] init_state)"
      and s'' = "snd (send_loop ?E3 demo_cfg ?xs [] init_state)"] t0
  have c: "length (sleeps (trace (snd (send_loop ?E3 demo_cfg ?xs [] init_state)))) +
    length (send_failures (trace (snd (send_loop ?E3 demo_cfg ?xs [] init_state)))) = 2"
    by simp
  from a b c show ?thesis by simp
qed

section \<open>A failure does not end the batch\<close>

lemma send_attempts:
  "\<exists>ps fs. posted (trace (snd (send env cfg xs s))) = posted (trace s) @ ps \<and>
     send_failures (trace (snd (send env cfg xs s))) = send_failures (trace s) @ fs \<and>
     length xs \<le> length ps + length fs \<and>
     (\<forall>x\<in>set xs. (\<exists>r\<in>set ps. last (req_message r) = Plain (format_message env cfg x)) \<or>
                   (\<exists>e. (illust_id x, e) \<in> set fs))"
proof (cases "xs = []")
  case True
  then show ?thesis by (simp add: send_def)
next
  case False
  obtain ids' s' where lp: "send_loop env cfg xs [] s = (ids', s')"
    by (cases "send_loop env cfg xs [] s")
  from send_loop_attempts [OF lp] False lp show ?thesis
    by (simp add: send_def)
qed

text \<open>
  What holds of every batch: whatever the outside does, \<open>send\<close> goes through the whole
  list, and each record leaves either its POST, whose last segment is its caption, or the
  log line of the exception that ended its processing. In a batch of three records whose
  chains can be built, where the gateway answers the first and third POST with status 200
  and a body that Python takes for true, and the second with another status, \<open>send\<close>
  returns the identifiers of the first and third record after three POSTs.
\<close>

lemma send_continues_after_failure:
  "(\<exists>ps fs. posted (trace (snd (send env cfg xs s))) = posted (trace s) @ ps \<and>
      send_failures (trace (snd (send env cfg xs s))) = send_failures (trace s) @ fs \<and>
      length xs \<le> length ps + length fs \<and>
      (\<forall>x\<in>set xs. (\<exists>r\<in>set ps. last (req_message r) = Plain (format_message env cfg x)) \<or>
                    (\<exists>e. (illust_id x, e) \<in> set fs))) \<and>
   ((\<forall>x\<in>{a, b, c}. \<exists>u. get_pixiv_cat_url env (illust_id x) = Inr u) \<longrightarrow>
    (\<forall>req. http_post env (n_posts s) req = Inr ra) \<longrightarrow>
    status ra = 200 \<longrightarrow> json_body ra = Inr ja \<longrightarrow> truthy ja \<longrightarrow>
    (\<forall>req. http_post env (Suc (n_posts s)) req = Inr rb) \<longrightarrow>
    status rb \<noteq> 200 \<longrightarrow>
    (\<forall>req. http_post env (Suc (Suc (n_posts s))) req = Inr rc) \<longrightarrow>
    status rc = 200 \<longrightarrow> json_body rc = Inr jc \<longrightarrow> truthy jc \<longrightarrow>
    fst (send env cfg [a, b, c] s) = [illust_id a, illust_id c] \<and>
    (\<exists>ca cb cc. posted (trace (snd (send env cfg [a, b, c] s))) =
       posted (trace s) @ [post_request cfg ca, post_request cfg cb, post_request cfg cc] \<and>
       last ca = Plain (format_message env cfg a) \<and>
       last cb = Plain (format_message env cfg b) \<and>
       last cc = Plain (format_message env cfg c)))"
  using send_attempts [of env cfg xs s] send_three_middle_rejected [of a b c env s ra ja rb rc jc cfg]
  by blast

lemma send_continues_after_failure_instance:
  "fst (send (scripted_env [Inr (ok_response (JObj [(''message_id'', JInt 41)])),
                            Inr (error_response 500),
                            Inr (ok_response (JObj [(''msg_id'', JStr ''m43'')]))])
          demo_cfg
          [demo_illust 1 [], demo_illust 2 [''https://i.pximg.net/img/2_p0.jpg''], demo_illust 3 []]
          init_state) = [1, 3] \<and>
   length (posted (trace (snd (send (scripted_env [Inr (ok_response (JObj [(''message_id'', JInt 41)])),
                            Inr (error_response 500),
                            Inr (ok_response (JObj [(''msg_id'', JStr ''m43'')]))])
          demo_cfg
          [demo_illust 1 [], demo_illust 2 [''https://i.pximg.net/img/2_p0.jpg''], demo_illust 3 []]
          init_state)))) = 3"
proof -
  let ?E = "scripted_env [Inr (ok_response (JObj [(''message_id'', JInt 41)])),
                          Inr (error_response 500),
                          Inr (ok_response (JObj [(''msg_id'', JStr ''m43'')]))]"
  have n0: "n_posts init_state = 0" and t0: "trace init_state = []"
    by (simp_all add: init_state_def)
  have h1: "\<forall>x\<in>{demo_illust 1 [], demo_illust 2 [''https://i.pximg.net/img/2_p0.jpg''], demo_illust 3 []}.
              \<exists>u. get_pixiv_cat_url ?E (illust_id x) = Inr u"
    by simp
  have h2: "\<forall>req. http_post ?E (n_posts init_state) req = Inr (ok_response (JObj [(''message_id'', JInt 41)]))"
    by (simp add: n0)
  have h3: "\<forall>req. http_post ?E (Suc (n_posts init_state)) req = Inr (error_response 500)"
    by (simp add: n0)
  have h4: "\<forall>req. http_post ?E (Suc (Suc (n_posts init_state))) req = Inr (ok_response (JObj [(''msg_id'', JStr ''m43'')]))"
    by (simp add: n0)
  let ?xs = "[demo_illust 1 [], demo_illust 2 [''https://i.pximg.net/img/2_p0.jpg''], demo_illust 3 []]"
  note T = send_continues_after_failure
    [where env = ?E and cfg = demo_cfg and s = init_state and xs = ?xs
      and a = "demo_illust 1 []" and b = "demo_illust 2 [''https://i.pximg.net/img/2_p0.jpg'']"
      and c = "demo_illust 3 []"
      and ra = "ok_response (JObj [(''message_id'', JInt 41)])" and ja = "JObj [(''message_id'', JInt 41)]"
      and rb = "error_response 500"
      and rc = "ok_response (JObj [(''msg_id'', JStr ''m43'')])" and jc = "JObj [(''msg_id'', JStr ''m43'')]"]
  from conjunct2 [OF T] h1 h2 h3 h4
  have "fst (send ?E demo_cfg ?xs init_state) = [1, 3] \<and>
    (\<exists>ca cb cc. posted (trace (snd (send ?E demo_cfg ?xs init_state))) =
       posted (trace init_state) @ [post_request demo_cfg ca, post_request demo_cfg cb, post_request demo_cfg cc] \<and>
       last ca = Plain (format_message ?E demo_cfg (demo_illust 1 [])) \<and>
       last cb = Plain (format_message ?E demo_cfg (demo_illust 2 [''https://i.pximg.net/img/2_p0.jpg''])) \<and>
       last cc = Plain (format_message ?E demo_cfg (demo_illust 3 [])))"
    by simp
  then show ?thesis using t0 by auto
qed

text \<open>
  Claim C1. A delivery failure or an exception while processing a record does not end the
  batch, and in a batch of three records whose second delivery returns a status other
  than 200, \<open>send\<close> returns the identifiers of the first and third record after three
  delivery attempts. The code does not do this when the first and third POST are answered
  with status 200 and the empty JSON object: the three POSTs and the three pauses take
  place, but \<open>if result:\<close> takes the two successful replies for failures and \<open>send\<close>
  returns the empty list.
\<close>

theorem three_records_empty_object_replies:
  "fst (send (scripted_env [Inr (ok_response (JObj [])), Inr (error_response 500), Inr (ok_response (JObj []))])
          demo_cfg [demo_illust 1 [], demo_illust 2 [], demo_illust 3 []] init_state) = [] \<and>
   length (posted (trace (snd (send (scripted_env [Inr (ok_response (JObj [])), Inr (error_response 500), Inr (ok_response (JObj []))])
          demo_cfg [demo_illust 1 [], demo_illust 2 [], demo_illust 3 []] init_state)))) = 3 \<and>
   sleeps (trace (snd (send (scripted_env [Inr (ok_response (JObj [])), Inr (error_response 500), Inr (ok_response (JObj []))])
          demo_cfg [demo_illust 1 [], demo_illust 2 [], demo_illust 3 []] init_state))) = [1, 1, 1]"
  by (simp add: send_def demo_step_eval post_message_def read_response_def
      init_state_def emit_def ensure_session_def Let_def)

section \<open>Status 200 and the success list\<close>

text \<open>
  Claim C3. A POST answered with status 200 is a delivery success: \<open>_post_message\<close>
  returns the parsed body and \<open>send\<close> appends the identifier; any other status is a
  failure and the identifier is not appended. The code does not do this when the body of
  the 200 response is the empty JSON object: \<open>_post_message\<close> returns \<open>{}\<close>, which
  \<open>if result:\<close> in \<open>send\<close> takes for a failure, so the identifier is not appended, while
  \<open>send_text\<close>, which tests \<open>result is not None\<close>, reports the same reply as a success.
  The lemmas \<open>send_step_delivered\<close> and \<open>send_step_rejected\<close> above are the two
  directions of the claim for the replies on which the code agrees with it.
\<close>

theorem empty_object_reply_not_recorded:
  "fst (post_message (scripted_env [Inr (ok_response (JObj []))]) demo_cfg
          [Plain (format_message (scripted_env [Inr (ok_response (JObj []))]) demo_cfg (demo_illust 7 []))]
          init_state) = Inr (JObj []) \<and>
   fst (send (scripted_env [Inr (ok_response (JObj []))]) demo_cfg [demo_illust 7 []] init_state) = [] \<and>
   fst (send_text (scripted_env [Inr (ok_response (JObj []))]) demo_cfg ''hello'' None init_state) = Inr True"
  by (simp add: send_def demo_step_eval send_text_def post_message_def read_response_def
      init_state_def Let_def)

section \<open>The correlation map\<close>






lemma extract_msg_id_object:
  "map_of kvs ''message_id'' = Some m \<Longrightarrow> truthy m \<Longrightarrow> extract_msg_id (JObj kvs) = Inr m"
  "map_of kvs ''message_id'' = None \<Longrightarrow> map_of kvs ''msg_id'' = Some m \<Longrightarrow>
     extract_msg_id (JObj kvs) = Inr m"
  "map_of kvs ''message_id'' = None \<Longrightarrow> map_of kvs ''msg_id'' = None \<Longrightarrow>
     extract_msg_id (JObj kvs) = Inr JNull"
  by (simp_all add: extract_msg_id_def)





section \<open>Feedback\<close>

text \<open>
  Claim C8, as stated, fails: \<open>handle_feedback\<close> awaits the callback outside any \<open>try\<close>,
  so when the callback raises, the exception leaves the method and nothing is returned.
\<close>

theorem feedback_raising_callback_counterexample:
  "handle_feedback (Some raising_callback) 7 ''1'' [(3::int, ''2'')] =
     (Inl (OtherException ''database is locked''), [(3, ''2'')])"
  by (simp add: handle_feedback_def raising_callback_def)

text \<open>
  Claim C8, amended. For every illustration identifier and action string,
  \<open>handle_feedback\<close> returns true whenever it returns. With no callback configured it
  returns true and changes nothing. With a callback configured it passes the pair of the
  identifier and the action to the callback once, and returns true when the callback
  returns; an exception raised by the callback is not caught and leaves the method.
\<close>

theorem handle_feedback_acknowledges:
  "handle_feedback None n action c = (Inr True, c) \<and>
   (fst (callback n action c) = None \<longrightarrow>
      handle_feedback (Some callback) n action c = (Inr True, snd (callback n action c))) \<and>
   (fst (callback n action c) = Some e \<longrightarrow>
      handle_feedback (Some callback) n action c = (Inl e, snd (callback n action c))) \<and>
   (fst (handle_feedback on_feedback n action c) = Inr b \<longrightarrow> b)"
  by (auto simp: handle_feedback_def split: option.splits prod.splits)

theorem handle_feedback_acknowledges_witness:
  "handle_feedback None 7 ''1'' [(3::int, ''2'')] = (Inr True, [(3::int, ''2'')]) \<and>
   handle_feedback (Some storing_callback) 7 ''1'' [(3::int, ''2'')] = (Inr True, [(3::int, ''2''), (7, ''1'')])"
proof -
  have h: "fst (storing_callback 7 ''1'' [(3::int, ''2'')]) = None"
    by (simp add: storing_callback_def)
  from handle_feedback_acknowledges
    [where callback = storing_callback and n = 7 and action = "''1''" and c = "[(3::int, ''2'')]"] h
  show ?thesis by (simp add: storing_callback_def)
qed

section \<open>Image failures\<close>

text \<open>
  Claim C6. For every URL, \<open>_download_and_encode_image\<close> returns and never raises: when
  the imports fail, when the download raises or yields nothing, and when decoding,
  normalising, scaling or encoding raises, the result is \<open>None\<close>.
\<close>

theorem download_and_encode_image_absorbs_failures:
  "(\<exists>r. fst (download_and_encode_image env cfg url s) = Inr r) \<and>
   (import_image_deps env = Some e \<longrightarrow> fst (download_and_encode_image env cfg url s) = Inr None) \<and>
   (import_image_deps env = None \<longrightarrow>
      (download_image_with_referer env (n_downloads s) url = Inl e \<or>
       download_image_with_referer env (n_downloads s) url = Inr None \<or>
       download_image_with_referer env (n_downloads s) url = Inr (Some [])) \<longrightarrow>
      fst (download_and_encode_image env cfg url s) = Inr None) \<and>
   (import_image_deps env = None \<longrightarrow>
      download_image_with_referer env (n_downloads s) url = Inr (Some image_data) \<longrightarrow>
      encode_image env cfg image_data = Inl e \<longrightarrow>
      fst (download_and_encode_image env cfg url s) = Inr None) \<and>
   (image_open env image_data = Inl e \<or>
    (\<exists>img. image_open env image_data = Inr img \<and> normalize_mode env img = Inl e) \<longrightarrow>
      encode_image env cfg image_data = Inl e)"
  by (auto simp: download_and_encode_image_def download_and_encode_body_def encode_image_def Let_def
      split: prod.splits sum.splits option.splits)

theorem download_and_encode_image_absorbs_failures_witness:
  "fst (download_and_encode_image (scripted_env []) demo_cfg ''https://i.pximg.net/img/5_p0.jpg'' init_state) = Inr None \<and>
   fst (download_and_encode_image corrupt_image_env demo_cfg ''https://i.pximg.net/img/5_p0.jpg'' init_state) = Inr None"
proof -
  let ?u = "''https://i.pximg.net/img/5_p0.jpg''"
  have a1: "import_image_deps (scripted_env []) = None" by simp
  have a2: "download_image_with_referer (scripted_env []) (n_downloads init_state) ?u = Inl ClientError"
    by simp
  from download_and_encode_image_absorbs_failures
    [where env = "scripted_env []" and cfg = demo_cfg and url = ?u and s = init_state and e = ClientError] a1 a2
  have A: "fst (download_and_encode_image (scripted_env []) demo_cfg ?u init_state) = Inr None"
    by simp
  have b1: "import_image_deps corrupt_image_env = None"
    by (simp add: corrupt_image_env_def)
  have b2: "download_image_with_referer corrupt_image_env (n_downloads init_state) ?u = Inr (Some [71, 73, 70])"
    by (simp add: corrupt_image_env_def)
  have b3: "image_open corrupt_image_env [71, 73, 70] = Inl (OtherException ''UnidentifiedImageError'')"
    by (simp add: corrupt_image_env_def scripted_env_def)
  note T = download_and_encode_image_absorbs_failures
    [where env = corrupt_image_env and cfg = demo_cfg and url = ?u and s = init_state
      and e = "OtherException ''UnidentifiedImageError''" and image_data = "[71, 73, 70]"]
  from T b3 have b4: "encode_image corrupt_image_env demo_cfg [71, 73, 70] =
      Inl (OtherException ''UnidentifiedImageError'')" by blast
  from T b1 b2 b4
  have B: "fst (download_and_encode_image corrupt_image_env demo_cfg ?u init_state) = Inr None"
    by blast
  from A B show ?thesis by simp
qed

section \<open>The message chain\<close>

lemma send_loop_chains:
  "send_loop env cfg xs ids s = (ids', s') \<Longrightarrow>
     \<exists>ps. posted (trace s') = posted (trace s) @ ps \<and>
       (\<forall>r\<in>set ps. \<exists>imgs t. req_message r = imgs @ [Plain t] \<and> (\<forall>x\<in>set imgs. is_image x))"
proof (induction xs arbitrary: ids s)
  case Nil
  then show ?case by simp
next
  case (Cons x xs)
  obtain ids1 s1 where st: "send_step env cfg x ids s = (ids1, s1)"
    by (cases "send_step env cfg x ids s")
  with Cons.prems have lp: "send_loop env cfg xs ids1 s1 = (ids', s')" by simp
  from Cons.IH [OF lp] obtain ps2 where
    p2: "posted (trace s') = posted (trace s1) @ ps2"
    "\<forall>r\<in>set ps2. \<exists>imgs t. req_message r = imgs @ [Plain t] \<and> (\<forall>x\<in>set imgs. is_image x)"
    by blast
  have "\<exists>ps1. posted (trace s1) = posted (trace s) @ ps1 \<and>
       (\<forall>r\<in>set ps1. \<exists>imgs t. req_message r = imgs @ [Plain t] \<and> (\<forall>x\<in>set imgs. is_image x))"
    using send_step_posted [OF st]
  proof
    assume "posted (trace s1) = posted (trace s) \<and>
           (\<exists>e. send_failures (trace s1) = send_failures (trace s) @ [(illust_id x, e)])"
    then show ?thesis by (intro exI [of _ "[]"]) simp
  next
    assume "\<exists>chain sb. build_chain env cfg x s = (Inr chain, sb) \<and>
            posted (trace s1) = posted (trace s) @ [post_request cfg chain] \<and>
            n_posts s1 = Suc (n_posts s)"
    then obtain chain sb where bc: "build_chain env cfg x s = (Inr chain, sb)"
      and p: "posted (trace s1) = posted (trace s) @ [post_request cfg chain]" by blast
    from build_chain_shape [OF bc] obtain imgs where
      "chain = imgs @ [Plain (format_message env cfg x)]" "\<forall>y\<in>set imgs. is_image y" by blast
    with p show ?thesis
      by (intro exI [of _ "[post_request cfg chain]"]) (auto simp: post_request_def)
  qed
  then obtain ps1 where
    p1: "posted (trace s1) = posted (trace s) @ ps1"
    "\<forall>r\<in>set ps1. \<exists>imgs t. req_message r = imgs @ [Plain t] \<and> (\<forall>x\<in>set imgs. is_image x)"
    by blast
  from p1 p2 show ?case by (intro exI [of _ "ps1 @ ps2"]) auto
qed

lemma send_loop_append:
  "send_loop env cfg (xs @ ys) ids s =
     (case send_loop env cfg xs ids s of (ids', s') \<Rightarrow> send_loop env cfg ys ids' s')"
  by (induction xs arbitrary: ids s) (auto split: prod.splits)

lemma send_loop_posted_grows:
  "\<exists>ps. posted (trace (snd (send_loop env cfg xs ids s))) = posted (trace s) @ ps"
  using send_loop_chains [of env cfg xs ids s "fst (send_loop env cfg xs ids s)" "snd (send_loop env cfg xs ids s)"]
  by auto

lemma send_step_fallback_posted:
  assumes u: "image_urls i = u # us"
    and d: "fst (download_and_encode_image env cfg u s) = Inr None"
    and c: "get_pixiv_cat_url env (illust_id i) = Inr cat_url"
  shows "posted (trace (snd (send_step env cfg i ids s))) =
           posted (trace s) @ [post_request cfg [ImageUrl cat_url, Plain (format_message env cfg i)]]"
proof -
  from build_chain_fallback [OF u d] c
  have "fst (build_chain env cfg i s) = Inr [ImageUrl cat_url, Plain (format_message env cfg i)]"
    by simp
  then obtain sb where bc: "build_chain env cfg i s =
      (Inr [ImageUrl cat_url, Plain (format_message env cfg i)], sb)"
    by (cases "build_chain env cfg i s") auto
  obtain ids' s' where st: "send_step env cfg i ids s = (ids', s')"
    by (cases "send_step env cfg i ids s")
  from send_step_after_build [OF bc st] st show ?thesis by simp
qed

lemma send_fallback_posted:
  assumes u: "image_urls i = u # us"
    and d: "fst (download_and_encode_image env cfg u (snd (send_loop env cfg before [] s))) = Inr None"
    and c: "get_pixiv_cat_url env (illust_id i) = Inr cat_url"
  shows "\<exists>ps qs. posted (trace (snd (send_loop env cfg before [] s))) = posted (trace s) @ ps \<and>
           posted (trace (snd (send env cfg (before @ i # rest) s))) =
             posted (trace s) @ ps @
             [post_request cfg [ImageUrl cat_url, Plain (format_message env cfg i)]] @ qs"
proof -
  obtain ids1 s1 where l1: "send_loop env cfg before [] s = (ids1, s1)"
    by (cases "send_loop env cfg before [] s")
  obtain ids2 s2 where st: "send_step env cfg i ids1 s1 = (ids2, s2)"
    by (cases "send_step env cfg i ids1 s1")
  obtain ids3 s3 where l3: "send_loop env cfg rest ids2 s2 = (ids3, s3)"
    by (cases "send_loop env cfg rest ids2 s2")
  from send_loop_posted_grows [of env cfg before "[]" s] l1 obtain ps where
    ps: "posted (trace s1) = posted (trace s) @ ps" by auto
  from send_step_fallback_posted [OF u _ c, of cfg s1 ids1] d l1 st
  have p2: "posted (trace s2) = posted (trace s1) @
      [post_request cfg [ImageUrl cat_url, Plain (format_message env cfg i)]]" by simp
  from send_loop_posted_grows [of env cfg rest ids2 s2] l3 obtain qs where
    qs: "posted (trace s3) = posted (trace s2) @ qs" by auto
  from l1 st l3 have "send_loop env cfg (before @ i # rest) [] s = (ids3, s3)"
    by (simp add: send_loop_append)
  then have "posted (trace (snd (send env cfg (before @ i # rest) s))) = posted (trace s3)"
    by (simp add: send_def)
  with ps p2 qs l1 show ?thesis by auto
qed

text \<open>
  Claim C5. For every record of a batch with at least one image URL whose cover could not
  be transcoded, when \<open>get_pixiv_cat_url\<close> returns a URL for the illustration
  identifier, \<open>send\<close> posts for that record, after the POSTs of the records before it,
  the chain made of the link segment with that URL followed by the caption. The chain
  built for such a record is that chain whenever one is built; every chain built is at
  most one image segment followed by the caption, with an image segment exactly when the
  record has an image URL; and every chain that \<open>send\<close> posts has its image segments
  before its caption.
\<close>

theorem fallback_link_and_segment_order:
  "(image_urls i = u # us \<longrightarrow>
    fst (download_and_encode_image env cfg u (snd (send_loop env cfg before [] s))) = Inr None \<longrightarrow>
    get_pixiv_cat_url env (illust_id i) = Inr cat_url \<longrightarrow>
      (\<exists>ps qs. posted (trace (snd (send_loop env cfg before [] s))) = posted (trace s) @ ps \<and>
         posted (trace (snd (send env cfg (before @ i # rest) s))) =
           posted (trace s) @ ps @
           [post_request cfg [ImageUrl cat_url, Plain (format_message env cfg i)]] @ qs)) \<and>
   (image_urls i = u # us \<longrightarrow> fst (download_and_encode_image env cfg u s) = Inr None \<longrightarrow>
    build_chain env cfg i s = (Inr chain, sb) \<longrightarrow>
      (\<exists>url. get_pixiv_cat_url env (illust_id i) = Inr url \<and>
         chain = [ImageUrl url, Plain (format_message env cfg i)])) \<and>
   (build_chain env cfg i s = (Inr chain, sb) \<longrightarrow>
      (\<exists>imgs. chain = imgs @ [Plain (format_message env cfg i)] \<and> length imgs \<le> 1 \<and>
         (\<forall>x\<in>set imgs. is_image x) \<and> (imgs = [] \<longleftrightarrow> image_urls i = []))) \<and>
   (\<exists>ps. posted (trace (snd (send env cfg xs s))) = posted (trace s) @ ps \<and>
      (\<forall>r\<in>set ps. \<exists>imgs t. req_message r = imgs @ [Plain t] \<and> (\<forall>x\<in>set imgs. is_image x)))"
proof (intro conjI impI)
  assume "image_urls i = u # us"
    and "fst (download_and_encode_image env cfg u (snd (send_loop env cfg before [] s))) = Inr None"
    and "get_pixiv_cat_url env (illust_id i) = Inr cat_url"
  then show "\<exists>ps qs. posted (trace (snd (send_loop env cfg before [] s))) = posted (trace s) @ ps \<and>
         posted (trace (snd (send env cfg (before @ i # rest) s))) =
           posted (trace s) @ ps @
           [post_request cfg [ImageUrl cat_url, Plain (format_message env cfg i)]] @ qs"
    by (rule send_fallback_posted)
next
  assume u: "image_urls i = u # us" and d: "fst (download_and_encode_image env cfg u s) = Inr None"
    and bc: "build_chain env cfg i s = (Inr chain, sb)"
  from build_chain_fallback [OF u d] bc
  show "\<exists>url. get_pixiv_cat_url env (illust_id i) = Inr url \<and>
         chain = [ImageUrl url, Plain (format_message env cfg i)]"
    by (cases "get_pixiv_cat_url env (illust_id i)") auto
next
  assume bc: "build_chain env cfg i s = (Inr chain, sb)"
  from build_chain_shape [OF bc]
  show "\<exists>imgs. chain = imgs @ [Plain (format_message env cfg i)] \<and> length imgs \<le> 1 \<and>
         (\<forall>x\<in>set imgs. is_image x) \<and> (imgs = [] \<longleftrightarrow> image_urls i = [])" .
next
  show "\<exists>ps. posted (trace (snd (send env cfg xs s))) = posted (trace s) @ ps \<and>
      (\<forall>r\<in>set ps. \<exists>imgs t. req_message r = imgs @ [Plain t] \<and> (\<forall>x\<in>set imgs. is_image x))"
  proof (cases "xs = []")
    case True
    then show ?thesis by (simp add: send_def)
  next
    case False
    obtain ids' s' where lp: "send_loop env cfg xs [] s = (ids', s')"
      by (cases "send_loop env cfg xs [] s")
    from send_loop_chains [OF lp] False lp show ?thesis by (simp add: send_def)
  qed
qed

theorem fallback_link_and_segment_order_witness:
  "post_request demo_cfg
     [ImageUrl ''https://pixiv.cat/5.jpg'',
      Plain (format_message (scripted_env []) demo_cfg (demo_illust 5 [''https://i.pximg.net/img/5_p0.jpg'']))]
   \<in> set (posted (trace (snd (send (scripted_env []) demo_cfg
            [demo_illust 4 [], demo_illust 5 [''https://i.pximg.net/img/5_p0.jpg''], demo_illust 6 []]
            init_state))))"
proof -
  let ?E = "scripted_env []"
  let ?i = "demo_illust 5 [''https://i.pximg.net/img/5_p0.jpg'']"
  have u: "image_urls ?i = ''https://i.pximg.net/img/5_p0.jpg'' # []" by simp
  have d: "fst (download_and_encode_image ?E demo_cfg ''https://i.pximg.net/img/5_p0.jpg''
      (snd (send_loop ?E demo_cfg [demo_illust 4 []] [] init_state))) = Inr None"
    by (simp add: download_and_encode_image_def download_and_encode_body_def Let_def
        split: prod.splits)
  have c: "get_pixiv_cat_url ?E (illust_id ?i) = Inr ''https://pixiv.cat/5.jpg''"
    by (simp add: str_int_def str_nat.simps digit_char_def)
  from fallback_link_and_segment_order
    [where env = ?E and cfg = demo_cfg and i = ?i and s = init_state
      and u = "''https://i.pximg.net/img/5_p0.jpg''" and us = "[]" and xs = "[]"
      and before = "[demo_illust 4 []]" and rest = "[demo_illust 6 []]"
      and cat_url = "''https://pixiv.cat/5.jpg''"] u d c
  obtain ps qs where
    "posted (trace (snd (send ?E demo_cfg ([demo_illust 4 []] @ ?i # [demo_illust 6 []]) init_state))) =
       posted (trace init_state) @ ps @
       [post_request demo_cfg [ImageUrl ''https://pixiv.cat/5.jpg'', Plain (format_message ?E demo_cfg ?i)]] @ qs"
    by blast
  then show ?thesis by simp
qed

section \<open>The caption\<close>

lemma long_mark_prefix:
  "prefix (long_emoji @ '' '') (format_message env cfg i) \<longleftrightarrow> page_count i > max_pages cfg"
proof (cases "page_count i > max_pages cfg")
  case True
  then show ?thesis by (simp add: format_message_def Let_def long_mark_def)
next
  case False
  have "\<not> prefix (long_emoji @ '' '') (r18_emoji @ xs)"
    "\<not> prefix (long_emoji @ '' '') (ugoira_emoji @ xs)"
    "\<not> prefix (long_emoji @ '' '') (title_emoji @ xs)" for xs
    by (simp_all add: long_emoji_def r18_emoji_def ugoira_emoji_def title_emoji_def)
  with False show ?thesis by (simp add: format_message_def Let_def long_mark_def)
qed

lemma shown_tags_props:
  "length (shown_tags i) \<le> 5"
  "\<forall>t\<in>set (shown_tags i). \<exists>u\<in>set (tags i). t = CHR ''#'' # u"
  by (auto simp: shown_tags_def dest: in_set_takeD)

text \<open>
  Claim C7. In the caption of every record, the title is followed by the page-count
  suffix \<open>(nP)\<close> if and only if the page count exceeds 1, and directly by the end of the
  line otherwise; the caption begins with the long-form marker if and only if the page
  count exceeds \<open>max_pages\<close>; the tag line lists the first five tags at most, each after
  a \<open>#\<close>.
\<close>

theorem format_message_suffix_marker_tags:
  "(\<exists>rest. format_message env cfg i =
       long_mark cfg i @ (if is_r18 i then r18_emoji @ '' '' else []) @
       (if (case illust_type i of None \<Rightarrow> ''illust'' | Some t \<Rightarrow> t) = ''ugoira''
        then ugoira_emoji @ '' '' else []) @
       title_emoji @ '' '' @ title i @ rest \<and>
       (prefix ('' ('' @ str_int (page_count i) @ ''P)'' @ nl @ user_emoji) rest \<longleftrightarrow> page_count i > 1) \<and>
       (prefix (nl @ user_emoji) rest \<longleftrightarrow> page_count i \<le> 1)) \<and>
   (prefix (long_emoji @ '' '') (format_message env cfg i) \<longleftrightarrow> page_count i > max_pages cfg) \<and>
   (\<exists>before after. format_message env cfg i =
       before @ tags_emoji @ '' '' @ join '' '' (shown_tags i) @ nl @ link_emoji @ after) \<and>
   shown_tags i = map (\<lambda>t. CHR ''#'' # t) (take 5 (tags i)) \<and>
   length (shown_tags i) \<le> 5 \<and>
   (\<forall>t\<in>set (shown_tags i). \<exists>u\<in>set (tags i). t = CHR ''#'' # u)"
proof (intro conjI)
  let ?rest = "page_info i @ nl @ user_emoji @ '' '' @ user_name i @ nl
         @ bookmark_emoji @ '' '' @ str_int (bookmark_count i) @ nl
         @ (case match_score i of
               None \<Rightarrow> []
             | Some sc \<Rightarrow> score_emoji @ '' '' @ score_label @ '': '' @ fmt_percent env sc @ ''%'' @ nl)
         @ tags_emoji @ '' '' @ join '' '' (shown_tags i) @ nl
         @ link_emoji @ '' https://pixiv.net/i/'' @ str_int (illust_id i) @ nl @ nl
         @ reply_word @ '' '' @ str_int (illust_id i) @ '' 1='' @ like_word
           @ '' 2='' @ dislike_word"
  show "\<exists>rest. format_message env cfg i =
       long_mark cfg i @ (if is_r18 i then r18_emoji @ '' '' else []) @
       (if (case illust_type i of None \<Rightarrow> ''illust'' | Some t \<Rightarrow> t) = ''ugoira''
        then ugoira_emoji @ '' '' else []) @
       title_emoji @ '' '' @ title i @ rest \<and>
       (prefix ('' ('' @ str_int (page_count i) @ ''P)'' @ nl @ user_emoji) rest \<longleftrightarrow> page_count i > 1) \<and>
       (prefix (nl @ user_emoji) rest \<longleftrightarrow> page_count i \<le> 1)"
  proof (intro exI [of _ ?rest] conjI)
    show "format_message env cfg i =
       long_mark cfg i @ (if is_r18 i then r18_emoji @ '' '' else []) @
       (if (case illust_type i of None \<Rightarrow> ''illust'' | Some t \<Rightarrow> t) = ''ugoira''
        then ugoira_emoji @ '' '' else []) @
       title_emoji @ '' '' @ title i @ ?rest"
      by (simp add: format_message_def Let_def)
    show "prefix ('' ('' @ str_int (page_count i) @ ''P)'' @ nl @ user_emoji) ?rest \<longleftrightarrow> page_count i > 1"
      by (simp add: page_info_def nl_def)
    show "prefix (nl @ user_emoji) ?rest \<longleftrightarrow> page_count i \<le> 1"
      by (auto simp: page_info_def nl_def)
  qed
  show "prefix (long_emoji @ '' '') (format_message env cfg i) \<longleftrightarrow> page_count i > max_pages cfg"
    by (rule long_mark_prefix)
  show "\<exists>before after. format_message env cfg i =
       before @ tags_emoji @ '' '' @ join '' '' (shown_tags i) @ nl @ link_emoji @ after"
  proof (intro exI conjI)
    show "format_message env cfg i =
       (long_mark cfg i @ (if is_r18 i then r18_emoji @ '' '' else []) @
        (if (case illust_type i of None \<Rightarrow> ''illust'' | Some t \<Rightarrow> t) = ''ugoira''
         then ugoira_emoji @ '' '' else []) @
        title_emoji @ '' '' @ title i @ page_info i @ nl @ user_emoji @ '' '' @ user_name i @ nl
         @ bookmark_emoji @ '' '' @ str_int (bookmark_count i) @ nl
         @ (case match_score i of
               None \<Rightarrow> []
             | Some sc \<Rightarrow> score_emoji @ '' '' @ score_label @ '': '' @ fmt_percent env sc @ ''%'' @ nl))
       @ tags_emoji @ '' '' @ join '' '' (shown_tags i) @ nl @ link_emoji @
       ('' https://pixiv.net/i/'' @ str_int (illust_id i) @ nl @ nl
         @ reply_word @ '' '' @ str_int (illust_id i) @ '' 1='' @ like_word
           @ '' 2='' @ dislike_word)"
      by (simp add: format_message_def Let_def)
  qed
  show "shown_tags i = map (\<lambda>t. CHR ''#'' # t) (take 5 (tags i))" by (simp add: shown_tags_def)
  show "length (shown_tags i) \<le> 5" by (rule shown_tags_props)
  show "\<forall>t\<in>set (shown_tags i). \<exists>u\<in>set (tags i). t = CHR ''#'' # u" by (rule shown_tags_props)
qed

theorem format_message_suffix_marker_tags_witness:
  "prefix (long_emoji @ '' '') (format_message (scripted_env []) demo_cfg manga_illust) \<and>
   shown_tags manga_illust = [''#a'', ''#b'', ''#c'', ''#d'', ''#e''] \<and>
   format_message (scripted_env []) demo_cfg manga_illust =
     long_emoji @ '' '' @ r18_emoji @ '' '' @ title_emoji @ '' Night (12P)'' @ nl @
     user_emoji @ '' rin'' @ nl @
     bookmark_emoji @ '' 1500'' @ nl @
     score_emoji @ '' '' @ score_label @ '': 0%'' @ nl @
     tags_emoji @ '' #a #b #c #d #e'' @ nl @
     link_emoji @ '' https://pixiv.net/i/98765'' @ nl @ nl @
     reply_word @ '' 98765 1='' @ like_word @ '' 2='' @ dislike_word"
proof -
  have pc: "page_count manga_illust > max_pages demo_cfg"
    by (simp add: manga_illust_def demo_cfg_def init_config_def)
  from format_message_suffix_marker_tags [of "scripted_env []" demo_cfg manga_illust] pc
  have a: "prefix (long_emoji @ '' '') (format_message (scripted_env []) demo_cfg manga_illust)"
    and b: "shown_tags manga_illust = map (\<lambda>t. CHR ''#'' # t) (take 5 (tags manga_illust))"
    by blast+
  from b have b': "shown_tags manga_illust = [''#a'', ''#b'', ''#c'', ''#d'', ''#e'']"
    by (simp add: manga_illust_def)
  have c: "format_message (scripted_env []) demo_cfg manga_illust =
     long_emoji @ '' '' @ r18_emoji @ '' '' @ title_emoji @ '' Night (12P)'' @ nl @
     user_emoji @ '' rin'' @ nl @
     bookmark_emoji @ '' 1500'' @ nl @
     score_emoji @ '' '' @ score_label @ '': 0%'' @ nl @
     tags_emoji @ '' #a #b #c #d #e'' @ nl @
     link_emoji @ '' https://pixiv.net/i/98765'' @ nl @ nl @
     reply_word @ '' 98765 1='' @ like_word @ '' 2='' @ dislike_word"
    by (simp add: format_message_def Let_def shown_tags_def long_mark_def page_info_def manga_illust_def
        demo_cfg_def init_config_def scripted_env_def str_int_def str_nat.simps digit_char_def)
  from a b' c show ?thesis by simp
qed

end
